theory Spec2Isabelle
  imports
    Main
    "HOL-Library.AList"
    "HOL-Library.Char_ord"
    "HOL-Library.List_Lexorder"
    "HOL-Library.Multiset"
    "HOL-Library.Product_Lexorder"
    "HOL-Library.Sublist"
begin

section \<open>Values of the parsed configuration\<close>

text \<open>
  The transformer works on what the HCL parser returns: nested Python dictionaries, lists,
  strings, integers, booleans and \<^verbatim>\<open>None\<close>. A dictionary is an association list in
  insertion order; its keys are strings (they are HCL identifiers and labels) and, in a
  Python dictionary, pairwise distinct. \<^verbatim>\<open>OrderedDict\<close> is a subclass of \<^verbatim>\<open>dict\<close>
  and every \<^verbatim>\<open>isinstance(v, dict)\<close> of the source accepts both, so one constructor stands
  for both. A character of a \<open>string\<close> stands for a code point below 256; strings are
  ordered as Python orders them, lexicographically by code point. Python floats are left out.
\<close>

datatype pyval =
    PNone
  | PBool bool
  | PInt int
  | PStr string
  | PList "pyval list"
  | PDict "(string \<times> pyval) list"

type_synonym pydict = "(string \<times> pyval) list"

text \<open>\<^verbatim>\<open>d.get(k)\<close>, which is \<^verbatim>\<open>None\<close> for a missing key; \<^verbatim>\<open>d[k] = v\<close>, where a new
  key goes to the end and a present key keeps its place; and \<^verbatim>\<open>d.pop(k, None)\<close>, as the
  value popped and the dictionary that remains.\<close>

definition dict_get :: "pydict \<Rightarrow> string \<Rightarrow> pyval" where
  "dict_get d k = (case map_of d k of None \<Rightarrow> PNone | Some v \<Rightarrow> v)"

definition dict_set :: "pydict \<Rightarrow> string \<Rightarrow> pyval \<Rightarrow> pydict" where
  "dict_set d k v = AList.update k v d"

definition dict_pop :: "pydict \<Rightarrow> string \<Rightarrow> pyval \<times> pydict" where
  "dict_pop d k = (dict_get d k, AList.delete k d)"

section \<open>The interpolation pattern\<close>

text \<open>
  \<^verbatim>\<open>str.isspace\<close> on one character, which is also what \<^verbatim>\<open>\s\<close> matches in a
  \<^verbatim>\<open>str\<close> pattern and what \<^verbatim>\<open>str.strip()\<close> removes: the code points 9 to 13,
  28 to 32, 133 and 160.
\<close>

definition isspace :: "char \<Rightarrow> bool" where
  "isspace c = (let n = (of_char c :: nat) in
     (9 \<le> n \<and> n \<le> 13) \<or> (28 \<le> n \<and> n \<le> 32) \<or> n = 133 \<or> n = 160)"

definition strip :: "string \<Rightarrow> string" where
  "strip s = rev (dropWhile isspace (rev (dropWhile isspace s)))"

text \<open>
  The fragment of Python's regular expressions that \<^verbatim>\<open>EXPR_RE\<close> uses: a literal
  character, a greedy star over a character class, the one named group, concatenation,
  and the anchors \<^verbatim>\<open>^\<close> and \<^verbatim>\<open>$\<close>.
\<close>

datatype regex =
    Lit char
  | Star "char \<Rightarrow> bool"
  | Group regex
  | Cat regex regex
  | Bos
  | Eos

text \<open>
  A matcher state is the number of characters consumed, the rest of the subject and the
  text captured by the group so far. \<open>rmatch r st\<close> lists the states in which a match of
  \<open>r\<close> from \<open>st\<close> can end, in the order in which a backtracking matcher tries them: a
  greedy star first takes all it can and then gives back one character at a time.
  Without \<^verbatim>\<open>re.MULTILINE\<close>, \<^verbatim>\<open>$\<close> matches at the end of the subject and just before
  a newline that ends it.
\<close>

type_synonym mstate = "nat \<times> string \<times> string"

fun star_states :: "(char \<Rightarrow> bool) \<Rightarrow> mstate \<Rightarrow> mstate list" where
  "star_states P (n, [], g) = [(n, [], g)]"
| "star_states P (n, c # cs, g) =
     (if P c then star_states P (Suc n, cs, g) @ [(n, c # cs, g)] else [(n, c # cs, g)])"

fun rmatch :: "regex \<Rightarrow> mstate \<Rightarrow> mstate list" where
  "rmatch (Lit c) (n, s, g) =
     (case s of [] \<Rightarrow> [] | x # xs \<Rightarrow> if x = c then [(Suc n, xs, g)] else [])"
| "rmatch (Star P) st = star_states P st"
| "rmatch (Group r) (n, s, g) =
     map (\<lambda>(n', s', g'). (n', s', take (n' - n) s)) (rmatch r (n, s, g))"
| "rmatch (Cat r1 r2) st = concat (map (rmatch r2) (rmatch r1 st))"
| "rmatch Bos (n, s, g) = (if n = 0 then [(n, s, g)] else [])"
| "rmatch Eos (n, s, g) = (if s = [] \<or> s = [CHR 0x0A] then [(n, s, g)] else [])"

text \<open>\<^verbatim>\<open>pattern.match(s)\<close> followed by \<^verbatim>\<open>m.group("inner")\<close>: the match is anchored at
  the start of \<open>s\<close> and the first way to match that the matcher finds is the one
  reported. The group of \<^verbatim>\<open>EXPR_RE\<close> takes part in every match.\<close>

definition re_match :: "regex \<Rightarrow> string \<Rightarrow> string option" where
  "re_match r s = (case rmatch r (0, s, []) of [] \<Rightarrow> None | (n, s', g) # _ \<Rightarrow> Some g)"

text \<open>\<^verbatim>\<open>EXPR_RE = re.compile(r'^\s*\${\s*(?P<inner>[^}]*)\s*}\s*$')\<close>\<close>

definition EXPR_RE :: regex where
  "EXPR_RE =
     Cat Bos (Cat (Star isspace) (Cat (Lit CHR ''$'') (Cat (Lit CHR ''{'')
       (Cat (Star isspace) (Cat (Group (Star (\<lambda>c. c \<noteq> CHR ''}'')))
         (Cat (Star isspace) (Cat (Lit CHR ''}'') (Cat (Star isspace) Eos))))))))"

section \<open>Value normalizer\<close>

function normalize_value :: "pyval \<Rightarrow> pyval" where
  "normalize_value (PDict v) =
     PDict (fold (\<lambda>kv out.
                    if fst kv = ''provisioner'' \<or> fst kv = ''connection'' then out
                    else dict_set out (fst kv) (normalize_value (snd kv)))
                 (sort_key fst v) [])"
| "normalize_value (PList v) = PList (map normalize_value v)"
| "normalize_value (PStr v) =
     (case re_match EXPR_RE v of
        Some inner \<Rightarrow> PDict [(''$expr'', PStr (strip inner))]
      | None \<Rightarrow> PStr v)"
| "normalize_value PNone = PNone"
| "normalize_value (PBool b) = PBool b"
| "normalize_value (PInt i) = PInt i"
  by pat_completeness auto
termination
proof (relation "measure size")
  show "wf (measure (size :: pyval \<Rightarrow> nat))" by simp
next
  fix v :: pydict and kv out
  assume "kv \<in> set (sort_key fst v)"
  then have "kv \<in> set v" by simp
  then have "size (snd kv) < size (PDict v)"
    by (induction v) (auto simp: less_Suc_eq trans_less_add2)
  then show "(snd kv, PDict v) \<in> measure size" by simp
next
  fix v :: "pyval list" and x
  assume "x \<in> set v"
  then have "size x < size (PList v)"
    by (induction v) (auto simp: less_Suc_eq trans_less_add2)
  then show "(x, PList v) \<in> measure size" by simp
qed

section \<open>Metadata extractor\<close>

definition to_expr_or_val :: "pyval \<Rightarrow> pyval" where
  "to_expr_or_val x =
     (case x of
        PStr s \<Rightarrow>
          (case re_match EXPR_RE s of
             Some inner \<Rightarrow> PDict [(''$expr'', PStr (strip inner))]
           | None \<Rightarrow> x)
      | _ \<Rightarrow> x)"

subsection \<open>The built-in \<^verbatim>\<open>str\<close>\<close>

text \<open>\<^verbatim>\<open>str(x)\<close> is \<open>x\<close> itself for a string, the decimal numeral for an integer,
  \<^verbatim>\<open>True\<close>, \<^verbatim>\<open>False\<close> and \<^verbatim>\<open>None\<close>, and for a list or a dictionary the
  \<^verbatim>\<open>repr\<close> of its elements between brackets. \<^verbatim>\<open>repr\<close> of a string quotes it, with
  double quotes when it holds a single quote and no double quote, and escapes the quote,
  the backslash and the characters that are not printable.\<close>

definition digit_char :: "nat \<Rightarrow> char" where
  "digit_char n = ''0123456789'' ! n"

function str_nat :: "nat \<Rightarrow> string" where
  "str_nat n = (if n < 10 then [digit_char n] else str_nat (n div 10) @ [digit_char (n mod 10)])"
  by pat_completeness auto
termination
  by (relation "measure id") auto

definition str_int :: "int \<Rightarrow> string" where
  "str_int i = (if i < 0 then CHR ''-'' # str_nat (nat (- i)) else str_nat (nat i))"

definition hex_char :: "nat \<Rightarrow> char" where
  "hex_char n = ''0123456789abcdef'' ! n"

definition repr_char :: "char \<Rightarrow> char \<Rightarrow> string" where
  "repr_char quote c =
     (let n = (of_char c :: nat) in
      if c = quote \<or> c = CHR 0x5C then [CHR 0x5C, c]
      else if c = CHR 0x09 then [CHR 0x5C, CHR ''t'']
      else if c = CHR 0x0A then [CHR 0x5C, CHR ''n'']
      else if c = CHR 0x0D then [CHR 0x5C, CHR ''r'']
      else if n < 32 \<or> n = 127 \<or> (128 \<le> n \<and> n \<le> 160) \<or> n = 173
        then [CHR 0x5C, CHR ''x'', hex_char (n div 16), hex_char (n mod 16)]
      else [c])"

definition repr_str :: "string \<Rightarrow> string" where
  "repr_str s =
     (let quote = (if CHR 0x27 \<in> set s \<and> CHR 0x22 \<notin> set s then CHR 0x22 else CHR 0x27)
      in quote # concat (map (repr_char quote) s) @ [quote])"

fun join :: "string \<Rightarrow> string list \<Rightarrow> string" where
  "join sep [] = []"
| "join sep [x] = x"
| "join sep (x # y # ys) = x @ sep @ join sep (y # ys)"

fun py_repr :: "pyval \<Rightarrow> string" where
  "py_repr PNone = ''None''"
| "py_repr (PBool b) = (if b then ''True'' else ''False'')"
| "py_repr (PInt i) = str_int i"
| "py_repr (PStr s) = repr_str s"
| "py_repr (PList xs) = ''['' @ join '', '' (map py_repr xs) @ '']''"
| "py_repr (PDict kvs) =
     ''{'' @ join '', '' (map (\<lambda>kv. repr_str (fst kv) @ '': '' @ py_repr (snd kv)) kvs) @ ''}''"

definition py_str :: "pyval \<Rightarrow> string" where
  "py_str x = (case x of PStr s \<Rightarrow> s | _ \<Rightarrow> py_repr x)"

subsection \<open>\<^verbatim>\<open>extract_meta\<close>\<close>

text \<open>The source pops the four keys from the dictionary it is given; the model returns the
  dictionary that remains as a second component. \<open>count0\<close> and \<open>for_each0\<close> are the
  values popped, \<open>count1\<close> and \<open>for_each1\<close> the values that the source assigns to the
  same variables afterwards.\<close>

definition extract_meta ::
  "pydict \<Rightarrow> (pyval \<times> pyval \<times> string list \<times> string option) \<times> pydict" where
  "extract_meta attrs0 =
     (let (count0, attrs1) = dict_pop attrs0 ''count'';
          (for_each0, attrs2) = dict_pop attrs1 ''for_each'';
          (depends_on, attrs3) = dict_pop attrs2 ''depends_on'';
          (provider, attrs) = dict_pop attrs3 ''provider'';
          count1 = (if count0 \<noteq> PNone then to_expr_or_val count0 else PNone);
          for_each1 = (if for_each0 \<noteq> PNone then to_expr_or_val for_each0 else PNone);
          depends =
            (if depends_on = PNone then []
             else (case depends_on of
                     PList xs \<Rightarrow> map py_str xs
                   | _ \<Rightarrow> [py_str depends_on]));
          provider_alias = (case provider of PStr s \<Rightarrow> Some s | _ \<Rightarrow> None)
      in ((count1, for_each1, depends, provider_alias), attrs))"

section \<open>Record builder and classifier\<close>

definition IAM_PREFIX :: string where
  "IAM_PREFIX = ''aws_iam_''"

definition S3_PREFIX :: string where
  "S3_PREFIX = ''aws_s3_''"

definition RDS_PREFIXES :: "string list" where
  "RDS_PREFIXES = [''aws_rds_'', ''aws_db_'']"

definition VPC_TYPES :: "string set" where
  "VPC_TYPES = {
     ''aws_vpc'',
     ''aws_vpc_dhcp_options'',
     ''aws_vpc_dhcp_options_association'',
     ''aws_subnet'',
     ''aws_route_table'',
     ''aws_route'',
     ''aws_main_route_table_association'',
     ''aws_route_table_association'',
     ''aws_network_acl'',
     ''aws_network_acl_rule'',
     ''aws_internet_gateway'',
     ''aws_nat_gateway'',
     ''aws_eip_association'',
     ''aws_vpc_endpoint'',
     ''aws_vpc_endpoint_service'',
     ''aws_vpc_peering_connection'',
     ''aws_vpc_peering_connection_accepter'',
     ''aws_flow_log'',
     ''aws_network_interface'',
     ''aws_network_interface_sg_attachment''}"

definition EC2_TYPES :: "string set" where
  "EC2_TYPES = {
     ''aws_instance'',
     ''aws_ami'',
     ''aws_ami_copy'',
     ''aws_ami_from_instance'',
     ''aws_ebs_volume'',
     ''aws_ebs_snapshot'',
     ''aws_volume_attachment'',
     ''aws_snapshot_create_volume_permission'',
     ''aws_key_pair'',
     ''aws_launch_template'',
     ''aws_placement_group'',
     ''aws_spot_fleet_request'',
     ''aws_eip''}"

definition SERVICES_KEYS :: "string list" where
  "SERVICES_KEYS = [''ec2'', ''iam'', ''rds'', ''s3'', ''vpc'']"

text \<open>\<^verbatim>\<open>t.startswith(p)\<close> is \<open>prefix p t\<close>; with a tuple of prefixes it holds when one of
  them is a prefix.\<close>

definition service_for_type :: "string \<Rightarrow> string option" where
  "service_for_type t =
     (if prefix IAM_PREFIX t then Some ''iam''
      else if prefix S3_PREFIX t then Some ''s3''
      else if list_ex (\<lambda>p. prefix p t) RDS_PREFIXES then Some ''rds''
      else if t \<in> VPC_TYPES then Some ''vpc''
      else if t \<in> EC2_TYPES then Some ''ec2''
      else None)"

record norm_record =
  r_address :: string
  r_type :: string
  r_name :: string
  r_service :: string
  r_mode :: string
  r_provider_alias :: "string option"
  r_depends_on :: "string list"
  r_count :: pyval
  r_for_each :: pyval
  r_attributes :: pydict

text \<open>\<^verbatim>\<open>OrderedDict(pairs)\<close> inserts the pairs one after the other.\<close>

definition ordered_dict :: "(string \<times> pyval) list \<Rightarrow> pydict" where
  "ordered_dict pairs = fold (\<lambda>kv out. dict_set out (fst kv) (snd kv)) pairs []"

text \<open>
  \<^verbatim>\<open>make_record\<close> returns a record and no error, or no record and a one-element tuple
  holding the reason: \<open>Inr\<close> the record, \<open>Inl\<close> the reason. The attributes are sorted as
  pairs; the keys of a dictionary are distinct, so their order is decided by the keys.
  A provider alias that is the empty string is false in the test of the alias and in the
  \<^verbatim>\<open>provider_alias\<close> field.
\<close>

definition make_record :: "string \<Rightarrow> string \<Rightarrow> string \<Rightarrow> pyval \<Rightarrow> string + norm_record" where
  "make_record kind rtype name body =
     (if \<not> prefix ''aws_'' rtype then Inl ''non_aws_provider''
      else (case service_for_type rtype of
        None \<Rightarrow> Inl ''unsupported_service''
      | Some service \<Rightarrow>
         (case body of
            PDict m \<Rightarrow>
              (let ((count1, for_each1, depends_on, provider_alias), attrs) = extract_meta m in
               if (case provider_alias of None \<Rightarrow> False
                   | Some a \<Rightarrow> a \<noteq> [] \<and> \<not> prefix ''aws'' a)
               then Inl ''non_aws_provider_alias''
               else
                 Inr \<lparr> r_address = rtype @ ''.'' @ name,
                       r_type = rtype,
                       r_name = name,
                       r_service = service,
                       r_mode = (if kind = ''data'' then ''data'' else ''resource''),
                       r_provider_alias =
                         (case provider_alias of None \<Rightarrow> None
                          | Some a \<Rightarrow> if a \<noteq> [] then Some a else None),
                       r_depends_on = depends_on,
                       r_count = count1,
                       r_for_each = for_each1,
                       r_attributes =
                         ordered_dict
                           (sort_key fst (map (\<lambda>kv. (fst kv, normalize_value (snd kv))) attrs)) \<rparr>)
          | _ \<Rightarrow> Inl ''malformed_block'')))"

section \<open>Document collector\<close>

text \<open>The two generators, as the lists of the pairs they yield.\<close>

definition iter_resource_entries :: "pyval \<Rightarrow> (string \<times> pyval) list" where
  "iter_resource_entries section =
     (case section of
        PNone \<Rightarrow> []
      | PList entries \<Rightarrow>
          concat (map (\<lambda>entry. case entry of PDict items \<Rightarrow> items | _ \<Rightarrow> []) entries)
      | PDict items \<Rightarrow> items
      | _ \<Rightarrow> [])"

definition iter_name_bodies :: "pyval \<Rightarrow> (string \<times> pyval) list" where
  "iter_name_bodies blocks =
     (case blocks of
        PList bs \<Rightarrow> concat (map (\<lambda>block. case block of PDict items \<Rightarrow> items | _ \<Rightarrow> []) bs)
      | PDict items \<Rightarrow> items
      | _ \<Rightarrow> [])"

text \<open>An ignored item is a dictionary with the keys \<^verbatim>\<open>kind\<close> and \<^verbatim>\<open>reason\<close> and, for a
  declaration, \<^verbatim>\<open>type\<close> and \<^verbatim>\<open>name\<close>, for a file, \<^verbatim>\<open>path\<close> and \<^verbatim>\<open>message\<close>.\<close>

record ignored_item =
  i_kind :: string
  i_type :: "string option"
  i_name :: "string option"
  i_path :: "string option"
  i_reason :: string
  i_message :: "string option"

text \<open>The body of the inner loop of \<^verbatim>\<open>collect_from_doc\<close>, on the records and the ignored
  items collected so far. A failed \<^verbatim>\<open>make_record\<close> always carries its reason.\<close>

definition visit ::
  "string \<Rightarrow> bool \<Rightarrow> string \<Rightarrow> string \<times> pyval \<Rightarrow>
   norm_record list \<times> ignored_item list \<Rightarrow> norm_record list \<times> ignored_item list" where
  "visit kind include_ignored rtype nb acc =
     (case make_record kind rtype (fst nb) (snd nb) of
        Inr rec \<Rightarrow> (fst acc @ [rec], snd acc)
      | Inl reason \<Rightarrow>
          if include_ignored
          then (fst acc,
                snd acc @ [\<lparr> i_kind = kind, i_type = Some rtype, i_name = Some (fst nb),
                             i_path = None, i_reason = reason, i_message = None \<rparr>])
          else acc)"

definition collect_section ::
  "string \<Rightarrow> bool \<Rightarrow> pyval \<Rightarrow>
   norm_record list \<times> ignored_item list \<Rightarrow> norm_record list \<times> ignored_item list" where
  "collect_section kind include_ignored section acc =
     fold (\<lambda>tb acc.
             if snd tb = PNone then acc
             else fold (visit kind include_ignored (fst tb)) (iter_name_bodies (snd tb)) acc)
          (iter_resource_entries section) acc"

definition collect_from_doc ::
  "pydict \<Rightarrow> bool \<Rightarrow> norm_record list \<times> norm_record list \<times> ignored_item list" where
  "collect_from_doc doc include_ignored =
     (let (resources, ignored1) =
            collect_section ''resource'' include_ignored (dict_get doc ''resource'') ([], []);
          (datas, ignored) =
            collect_section ''data'' include_ignored (dict_get doc ''data'') ([], ignored1)
      in (resources, datas, ignored))"

section \<open>Service organizer and aggregator\<close>

definition sort_records :: "norm_record list \<Rightarrow> norm_record list" where
  "sort_records recs = sort_key (\<lambda>r. (r_type r, r_name r, r_address r)) recs"

record bucket =
  resources :: "norm_record list"
  data_sources :: "norm_record list"

type_synonym services = "(string \<times> bucket) list"

text \<open>\<^verbatim>\<open>services[k]\<close> raises \<^verbatim>\<open>KeyError\<close> for a key that is missing: the functions
  below return \<open>None\<close> then.\<close>

fun add_resources :: "services \<Rightarrow> norm_record list \<Rightarrow> services option" where
  "add_resources sv [] = Some sv"
| "add_resources sv (r # rs) =
     (case map_of sv (r_service r) of
        None \<Rightarrow> None
      | Some b \<Rightarrow>
          add_resources (AList.update (r_service r) (b\<lparr>resources := resources b @ [r]\<rparr>) sv) rs)"

fun add_datas :: "services \<Rightarrow> norm_record list \<Rightarrow> services option" where
  "add_datas sv [] = Some sv"
| "add_datas sv (d # ds) =
     (case map_of sv (r_service d) of
        None \<Rightarrow> None
      | Some b \<Rightarrow>
          add_datas (AList.update (r_service d) (b\<lparr>data_sources := data_sources b @ [d]\<rparr>) sv) ds)"

fun sort_buckets :: "services \<Rightarrow> string list \<Rightarrow> services option" where
  "sort_buckets sv [] = Some sv"
| "sort_buckets sv (k # ks) =
     (case map_of sv k of
        None \<Rightarrow> None
      | Some b \<Rightarrow>
          sort_buckets
            (AList.update k \<lparr> resources = sort_records (resources b),
                              data_sources = sort_records (data_sources b) \<rparr> sv) ks)"

definition organize_by_service ::
  "norm_record list \<Rightarrow> norm_record list \<Rightarrow> services option" where
  "organize_by_service rs ds =
     (let services = map (\<lambda>k. (k, \<lparr> resources = [], data_sources = [] \<rparr>)) SERVICES_KEYS in
      Option.bind (add_resources services rs) (\<lambda>services.
      Option.bind (add_datas services ds) (\<lambda>services.
      sort_buckets services SERVICES_KEYS)))"

record envelope =
  e_version :: string
  e_provider :: string
  e_services :: services
  e_ignored :: "ignored_item list option"

definition ignored_key :: "ignored_item \<Rightarrow> string \<times> string \<times> string \<times> string \<times> string" where
  "ignored_key x =
     (i_kind x,
      (case i_type x of None \<Rightarrow> [] | Some t \<Rightarrow> t),
      (case i_name x of None \<Rightarrow> [] | Some n \<Rightarrow> n),
      (case i_path x of None \<Rightarrow> [] | Some p \<Rightarrow> p),
      i_reason x)"

text \<open>What both entry points do once every unit is collected.\<close>

definition assemble ::
  "bool \<Rightarrow> norm_record list \<times> norm_record list \<times> ignored_item list \<Rightarrow> envelope option" where
  "assemble include_ignored acc =
     (case acc of (all_resources, all_datas, all_ignored) \<Rightarrow>
      Option.bind (organize_by_service all_resources all_datas) (\<lambda>services.
      Option.bind (those (map (\<lambda>k. map_option (Pair k) (map_of services k)) SERVICES_KEYS))
        (\<lambda>by_key.
           Some \<lparr> e_version = ''1.0'',
                  e_provider = ''aws'',
                  e_services = by_key,
                  e_ignored =
                    (if include_ignored then Some (sort_key ignored_key all_ignored)
                     else None) \<rparr>)))"

text \<open>One unit: \<open>path\<close> is the path reported for it and \<open>parsed\<close> what the parser returned
  for it, \<open>Inl\<close> the message of the exception it raised or \<open>Inr\<close> the document.\<close>

definition process_unit ::
  "bool \<Rightarrow> string \<Rightarrow> string + pydict \<Rightarrow>
   norm_record list \<times> norm_record list \<times> ignored_item list \<Rightarrow>
   norm_record list \<times> norm_record list \<times> ignored_item list" where
  "process_unit include_ignored path parsed acc =
     (case acc of (all_resources, all_datas, all_ignored) \<Rightarrow>
      (case parsed of
         Inl e \<Rightarrow>
           if include_ignored
           then (all_resources, all_datas,
                 all_ignored @ [\<lparr> i_kind = ''file'', i_type = None, i_name = None,
                                   i_path = Some path, i_reason = ''parse_error'',
                                   i_message = Some e \<rparr>])
           else acc
       | Inr doc \<Rightarrow>
           (case collect_from_doc doc include_ignored of (res, datas, ign) \<Rightarrow>
              (all_resources @ res, all_datas @ datas, all_ignored @ ign))))"

text \<open>
  The request of \<^verbatim>\<open>transform_from_prompt\<close>: the entries of \<^verbatim>\<open>files\<close>, each with the
  value of \<^verbatim>\<open>path\<close> (\<open>None\<close> when the key is missing or null) and of \<^verbatim>\<open>content\<close>, and
  the flag \<^verbatim>\<open>options.include_ignored\<close>. The HCL parser is not part of the repository: it
  is the parameter \<open>parse_tf_string\<close>.
\<close>

record file_entry =
  f_path :: "string option"
  f_content :: string

record request =
  q_files :: "file_entry list"
  q_include_ignored :: bool

definition transform_from_prompt ::
  "(string \<Rightarrow> string + pydict) \<Rightarrow> request \<Rightarrow> envelope option" where
  "transform_from_prompt parse_tf_string request_obj =
     (let files = q_files request_obj;
          include_ignored = q_include_ignored request_obj
      in assemble include_ignored
           (fold (\<lambda>f acc.
                    let path = (case f_path f of None \<Rightarrow> ''<memory>''
                                | Some p \<Rightarrow> if p = [] then ''<memory>'' else p);
                        content = f_content f
                    in process_unit include_ignored path (parse_tf_string content) acc)
                 files ([], [], [])))"

text \<open>
  The file system that \<^verbatim>\<open>transform_from_path\<close> reads: the two tests on a path, the pairs
  of directory and file name that \<^verbatim>\<open>os.walk\<close> yields below a directory, in its order,
  \<^verbatim>\<open>os.path.join\<close>, and the parser applied to the file at a path.
\<close>

record filesystem =
  fs_isfile :: "string \<Rightarrow> bool"
  fs_isdir :: "string \<Rightarrow> bool"
  fs_walk :: "string \<Rightarrow> (string \<times> string) list"
  fs_join :: "string \<Rightarrow> string \<Rightarrow> string"
  parse_tf_file :: "string \<Rightarrow> string + pydict"

definition gather_tf_files :: "filesystem \<Rightarrow> string \<Rightarrow> string list" where
  "gather_tf_files fs input_path =
     sort (if fs_isfile fs input_path \<and> suffix ''.tf'' input_path then [input_path]
           else if fs_isdir fs input_path
           then map (\<lambda>rf. fs_join fs (fst rf) (snd rf))
                  (filter (\<lambda>rf. suffix ''.tf'' (snd rf)) (fs_walk fs input_path))
           else [])"

definition transform_from_path :: "filesystem \<Rightarrow> string \<Rightarrow> bool \<Rightarrow> envelope option" where
  "transform_from_path fs input_path include_ignored =
     (let tf_files = gather_tf_files fs input_path
      in assemble include_ignored
           (fold (\<lambda>p acc. process_unit include_ignored p (parse_tf_file fs p) acc)
                 tf_files ([], [], [])))"

section \<open>Notions used in the proofs\<close>

text \<open>A value is in normal form when every dictionary in it has its keys in strictly
  ascending order and none of them is \<^verbatim>\<open>provisioner\<close> or \<^verbatim>\<open>connection\<close>, and no string in
  it matches \<^verbatim>\<open>EXPR_RE\<close>.\<close>

fun normal_form :: "pyval \<Rightarrow> bool" where
  "normal_form (PDict kvs) =
     (sorted (map fst kvs) \<and> distinct (map fst kvs) \<and>
      (\<forall>kv \<in> set kvs. fst kv \<noteq> ''provisioner'' \<and> fst kv \<noteq> ''connection'' \<and>
                        normal_form (snd kv)))"
| "normal_form (PList xs) = (\<forall>x \<in> set xs. normal_form x)"
| "normal_form (PStr s) = (re_match EXPR_RE s = None)"
| "normal_form _ = True"

text \<open>\<open>mentions k v\<close>: some dictionary inside the value \<open>v\<close>, at any depth, has the key \<open>k\<close>.\<close>

fun mentions :: "string \<Rightarrow> pyval \<Rightarrow> bool" where
  "mentions k (PDict kvs) = (\<exists>kv \<in> set kvs. fst kv = k \<or> mentions k (snd kv))"
| "mentions k (PList xs) = (\<exists>x \<in> set xs. mentions k x)"
| "mentions k _ = False"

text \<open>The body of the outer loop of \<^verbatim>\<open>collect_from_doc\<close>, for one pair that
  \<^verbatim>\<open>_iter_resource_entries\<close> yields.\<close>

definition collect_entry ::
  "string \<Rightarrow> bool \<Rightarrow> string \<times> pyval \<Rightarrow>
   norm_record list \<times> ignored_item list \<Rightarrow> norm_record list \<times> ignored_item list" where
  "collect_entry kind include_ignored tb acc =
     (if snd tb = PNone then acc
      else fold (visit kind include_ignored (fst tb)) (iter_name_bodies (snd tb)) acc)"

text \<open>The sort key of \<^verbatim>\<open>sort_records\<close>.\<close>

definition record_key :: "norm_record \<Rightarrow> string \<times> string \<times> string" where
  "record_key r = (r_type r, r_name r, r_address r)"

text \<open>The declarations of a section, in the order in which the two loops of
  \<^verbatim>\<open>collect_from_doc\<close> reach them, as triples of type, name and body; the records that
  \<^verbatim>\<open>make_record\<close> builds for a list of declarations, and the ignored items for those it
  refuses.\<close>

definition declarations :: "pyval \<Rightarrow> (string \<times> string \<times> pyval) list" where
  "declarations section =
     concat (map (\<lambda>tb. if snd tb = PNone then []
                        else map (\<lambda>nb. (fst tb, fst nb, snd nb)) (iter_name_bodies (snd tb)))
                 (iter_resource_entries section))"

definition built :: "string \<Rightarrow> (string \<times> string \<times> pyval) list \<Rightarrow> norm_record list" where
  "built kind decls =
     concat (map (\<lambda>d. case make_record kind (fst d) (fst (snd d)) (snd (snd d)) of
                          Inr rec \<Rightarrow> [rec] | Inl reason \<Rightarrow> [])
                 decls)"

definition refused :: "string \<Rightarrow> (string \<times> string \<times> pyval) list \<Rightarrow> ignored_item list" where
  "refused kind decls =
     concat (map (\<lambda>d. case make_record kind (fst d) (fst (snd d)) (snd (snd d)) of
                          Inr rec \<Rightarrow> []
                        | Inl reason \<Rightarrow>
                            [\<lparr> i_kind = kind, i_type = Some (fst d), i_name = Some (fst (snd d)),
                               i_path = None, i_reason = reason, i_message = None \<rparr>])
                 decls)"

section \<open>Properties of the interpolation pattern\<close>

lemma star_states_hd:
  "\<exists>rest. star_states P (n, s, g) = (n + length (takeWhile P s), dropWhile P s, g) # rest"
proof (induction s arbitrary: n)
  case Nil
  then show ?case by simp
next
  case (Cons c cs)
  obtain rest where r: "star_states P (Suc n, cs, g) =
      (Suc n + length (takeWhile P cs), dropWhile P cs, g) # rest"
    using Cons.IH by blast
  show ?case by (cases "P c") (simp_all add: r)
qed

lemma star_states_mem:
  "(n', s', g') \<in> set (star_states P (n, s, g)) \<Longrightarrow>
   \<exists>pre. s = pre @ s' \<and> list_all P pre \<and> n' = n + length pre \<and> g' = g"
proof (induction s arbitrary: n)
  case Nil
  then show ?case by simp
next
  case (Cons c cs)
  show ?case
  proof (cases "P c \<and> (n', s', g') \<in> set (star_states P (Suc n, cs, g))")
    case True
    then obtain pre where "cs = pre @ s'" "list_all P pre" "n' = Suc n + length pre" "g' = g"
      using Cons.IH by blast
    then have "c # cs = (c # pre) @ s' \<and> list_all P (c # pre) \<and> n' = n + length (c # pre) \<and> g' = g"
      using True by simp
    then show ?thesis by blast
  next
    case False
    then have "(n', s', g') = (n, c # cs, g)"
      using Cons.prems by (auto split: if_splits)
    then have "c # cs = [] @ s' \<and> list_all P [] \<and> n' = n + length ([]::string) \<and> g' = g"
      by simp
    then show ?thesis by blast
  qed
qed

lemma concat_map_empty: "(\<And>x. x \<in> set xs \<Longrightarrow> f x = []) \<Longrightarrow> concat (map f xs) = []"
  by (induction xs) auto

lemma isspace_newline: "isspace (CHR 0x0A)"
  by (simp add: isspace_def)

lemma isspace_not_brace: "isspace c \<Longrightarrow> c \<noteq> CHR ''}''"
  by (auto simp: isspace_def)

lemma isspace_not_dollar: "isspace c \<Longrightarrow> c \<noteq> CHR ''$''"
  by (auto simp: isspace_def)

lemma tail_nonempty:
  "rmatch (Cat (Star isspace) Eos) (n, t, g) \<noteq> [] \<longleftrightarrow> list_all isspace t"
proof
  assume "rmatch (Cat (Star isspace) Eos) (n, t, g) \<noteq> []"
  then obtain st where st: "st \<in> set (star_states isspace (n, t, g))" "rmatch Eos st \<noteq> []"
    by (auto)
  obtain n' s' g' where [simp]: "st = (n', s', g')" by (cases st)
  from st(1) obtain pre where pre: "t = pre @ s'" "list_all isspace pre"
    using star_states_mem by fastforce
  from st(2) have "s' = [] \<or> s' = [CHR 0x0A]" by (auto split: if_splits)
  with pre show "list_all isspace t" using isspace_newline by auto
next
  assume a: "list_all isspace t"
  then have tw: "takeWhile isspace t = t" and dw: "dropWhile isspace t = []"
    by (auto simp: list_all_iff)
  obtain rest where "star_states isspace (n, t, g) =
      (n + length (takeWhile isspace t), dropWhile isspace t, g) # rest"
    using star_states_hd[of isspace n t g] by blast
  then have "star_states isspace (n, t, g) = (n + length t, [], g) # rest"
    by (simp only: tw dw)
  then show "rmatch (Cat (Star isspace) Eos) (n, t, g) \<noteq> []" by simp
qed

lemma tail_capture:
  "st \<in> set (rmatch (Cat (Star isspace) Eos) (n, t, g)) \<Longrightarrow> snd (snd st) = g"
proof -
  assume "st \<in> set (rmatch (Cat (Star isspace) Eos) (n, t, g))"
  then obtain st' where st': "st' \<in> set (star_states isspace (n, t, g))" "st \<in> set (rmatch Eos st')"
    by auto
  obtain n' s' g' where [simp]: "st' = (n', s', g')" by (cases st')
  from st'(1) have "g' = g" using star_states_mem by fastforce
  with st'(2) show ?thesis by (auto split: if_splits)
qed


lemma mem_nonempty: "z \<in> set xs \<Longrightarrow> xs \<noteq> []"
  by auto

lemma Cat_hd:
  "rmatch r1 st = x # xs \<Longrightarrow> rmatch r2 x = y # ys \<Longrightarrow> \<exists>zs. rmatch (Cat r1 r2) st = y # zs"
  by simp

lemma Cat_mem:
  "z \<in> set (rmatch (Cat r1 r2) st) \<Longrightarrow> \<exists>x \<in> set (rmatch r1 st). z \<in> set (rmatch r2 x)"
  by auto

lemma skip_space_then_lit:
  "\<not> isspace c \<Longrightarrow>
   rmatch (Cat (Star isspace) (Cat (Lit c) r)) (n, s, g) =
   rmatch (Cat (Lit c) r) (n + length (takeWhile isspace s), dropWhile isspace s, g)"
proof (induction s arbitrary: n)
  case Nil
  then show ?case by simp
next
  case (Cons a s)
  show ?case
  proof (cases "isspace a")
    case True
    with Cons.prems have "a \<noteq> c" by auto
    with True Cons.IH[OF Cons.prems, of "Suc n"] show ?thesis by simp
  next
    case False
    then show ?thesis by simp
  qed
qed

lemma dropWhile_stop: "\<not> P y \<Longrightarrow> dropWhile P (xs @ y # ys) = dropWhile P xs @ y # ys"
  by (induction xs) auto

lemma inner_match:
  assumes body: "CHR ''}'' \<notin> set body" and tail: "list_all isspace tail"
  shows "\<exists>n' s' zs.
    rmatch (Cat (Star isspace) (Cat (Group (Star (\<lambda>c. c \<noteq> CHR ''}'')))
       (Cat (Star isspace) (Cat (Lit CHR ''}'') (Cat (Star isspace) Eos)))))
      (n, body @ CHR ''}'' # tail, g) = (n', s', dropWhile isspace body) # zs"
proof -
  let ?nb = "\<lambda>c. c \<noteq> CHR ''}''"
  let ?b1 = "dropWhile isspace body"
  let ?n1 = "n + length (takeWhile isspace (body @ CHR ''}'' # tail))"
  let ?n2 = "?n1 + length ?b1"
  have nsp: "\<not> isspace CHR ''}''" by (simp add: isspace_def)
  have b1: "CHR ''}'' \<notin> set ?b1" using body set_dropWhileD by fastforce
  obtain r1 where s1: "rmatch (Star isspace) (n, body @ CHR ''}'' # tail, g)
      = (?n1, ?b1 @ CHR ''}'' # tail, g) # r1"
    using star_states_hd[of isspace n "body @ CHR ''}'' # tail" g]
    by (auto simp: dropWhile_stop[where P=isspace, OF nsp])
  have tw: "takeWhile ?nb (?b1 @ CHR ''}'' # tail) = ?b1"
    using b1 by (auto simp: takeWhile_tail)
  have dw: "dropWhile ?nb (?b1 @ CHR ''}'' # tail) = CHR ''}'' # tail"
    using b1 by (auto simp: dropWhile_append3)
  obtain r2 where "star_states ?nb (?n1, ?b1 @ CHR ''}'' # tail, g)
      = (?n1 + length (takeWhile ?nb (?b1 @ CHR ''}'' # tail)),
         dropWhile ?nb (?b1 @ CHR ''}'' # tail), g) # r2"
    using star_states_hd[of ?nb ?n1 "?b1 @ CHR ''}'' # tail" g] by blast
  then have "star_states ?nb (?n1, ?b1 @ CHR ''}'' # tail, g) = (?n2, CHR ''}'' # tail, g) # r2"
    by (simp only: tw dw)
  then obtain r2' where s2: "rmatch (Group (Star ?nb)) (?n1, ?b1 @ CHR ''}'' # tail, g)
      = (?n2, CHR ''}'' # tail, ?b1) # r2'"
    by simp
  have s3: "rmatch (Star isspace) (?n2, CHR ''}'' # tail, ?b1) = [(?n2, CHR ''}'' # tail, ?b1)]"
    using nsp by simp
  have s4: "rmatch (Lit CHR ''}'') (?n2, CHR ''}'' # tail, ?b1) = [(Suc ?n2, tail, ?b1)]"
    by simp
  have "rmatch (Cat (Star isspace) Eos) (Suc ?n2, tail, ?b1) \<noteq> []"
    using tail tail_nonempty by blast
  then obtain st rest where s5: "rmatch (Cat (Star isspace) Eos) (Suc ?n2, tail, ?b1) = st # rest"
    by (cases "rmatch (Cat (Star isspace) Eos) (Suc ?n2, tail, ?b1)") auto
  then have "snd (snd st) = ?b1"
    using tail_capture[of st "Suc ?n2" tail ?b1] by simp
  then obtain n' s' where st: "st = (n', s', ?b1)" by (cases st) auto
  from Cat_hd[OF s4 s5] obtain z4 where
    c4: "rmatch (Cat (Lit CHR ''}'') (Cat (Star isspace) Eos)) (?n2, CHR ''}'' # tail, ?b1) = st # z4"
    by blast
  from Cat_hd[OF s3 c4] obtain z3 where
    c3: "rmatch (Cat (Star isspace) (Cat (Lit CHR ''}'') (Cat (Star isspace) Eos)))
           (?n2, CHR ''}'' # tail, ?b1) = st # z3"
    by blast
  from Cat_hd[OF s2 c3] obtain z2 where
    c2: "rmatch (Cat (Group (Star ?nb))
           (Cat (Star isspace) (Cat (Lit CHR ''}'') (Cat (Star isspace) Eos))))
           (?n1, ?b1 @ CHR ''}'' # tail, g) = st # z2"
    by blast
  from Cat_hd[OF s1 c2] obtain z1 where
    "rmatch (Cat (Star isspace) (Cat (Group (Star ?nb))
           (Cat (Star isspace) (Cat (Lit CHR ''}'') (Cat (Star isspace) Eos)))))
           (n, body @ CHR ''}'' # tail, g) = st # z1"
    by blast
  with st show ?thesis by blast
qed

lemma inner_match_only:
  assumes "rmatch (Cat (Star isspace) (Cat (Group (Star (\<lambda>c. c \<noteq> CHR ''}'')))
       (Cat (Star isspace) (Cat (Lit CHR ''}'') (Cat (Star isspace) Eos))))) (n, t, g) \<noteq> []"
  shows "\<exists>body tail. t = body @ CHR ''}'' # tail \<and> CHR ''}'' \<notin> set body \<and> list_all isspace tail"
proof -
  let ?nb = "\<lambda>c. c \<noteq> CHR ''}''"
  let ?r9 = "Cat (Star isspace) Eos"
  let ?r8 = "Cat (Lit CHR ''}'') ?r9"
  let ?r7 = "Cat (Star isspace) ?r8"
  let ?r6 = "Cat (Group (Star ?nb)) ?r7"
  from assms obtain z where "z \<in> set (rmatch (Cat (Star isspace) ?r6) (n, t, g))"
    by (meson last_in_set)
  then obtain st1 where st1: "st1 \<in> set (rmatch (Star isspace) (n, t, g))"
      and z6: "z \<in> set (rmatch ?r6 st1)"
    using Cat_mem by blast
  from z6 obtain st2 where st2: "st2 \<in> set (rmatch (Group (Star ?nb)) st1)"
      and z7: "z \<in> set (rmatch ?r7 st2)"
    using Cat_mem by blast
  from z7 obtain st3 where st3: "st3 \<in> set (rmatch (Star isspace) st2)"
      and z8: "z \<in> set (rmatch ?r8 st3)"
    using Cat_mem by blast
  from z8 obtain st4 where st4: "st4 \<in> set (rmatch (Lit CHR ''}'') st3)"
      and z9: "z \<in> set (rmatch ?r9 st4)"
    using Cat_mem by blast
  obtain n1 s1 g1 where [simp]: "st1 = (n1, s1, g1)" by (cases st1)
  obtain n2 s2 g2 where [simp]: "st2 = (n2, s2, g2)" by (cases st2)
  obtain n3 s3 g3 where [simp]: "st3 = (n3, s3, g3)" by (cases st3)
  obtain n4 s4 g4 where st4eq: "st4 = (n4, s4, g4)" by (cases st4)
  from st1 obtain p1 where p1: "t = p1 @ s1" "list_all isspace p1"
    using star_states_mem[of n1 s1 g1 isspace n t g] by auto
  from st2 obtain g' where "(n2, s2, g') \<in> set (star_states ?nb (n1, s1, g1))"
    by auto
  then obtain p2 where p2: "s1 = p2 @ s2" "list_all ?nb p2"
    using star_states_mem[of n2 s2 g' ?nb n1 s1 g1] by auto
  from st3 obtain p3 where p3: "s2 = p3 @ s3" "list_all isspace p3"
    using star_states_mem[of n3 s3 g3 isspace n2 s2 g2] by auto
  from st4 have s3: "s3 = CHR ''}'' # s4"
    by (auto simp: st4eq split: list.splits if_splits)
  from z9[unfolded st4eq] have "rmatch ?r9 (n4, s4, g4) \<noteq> []" by (rule mem_nonempty)
  then have tail: "list_all isspace s4" using tail_nonempty by blast
  have "CHR ''}'' \<notin> set (p1 @ p2 @ p3)"
    using p1(2) p2(2) p3(2) isspace_not_brace by (auto simp: list_all_iff)
  moreover have "t = (p1 @ p2 @ p3) @ CHR ''}'' # s4"
    using p1(1) p2(1) p3(1) s3 by simp
  ultimately show ?thesis using tail by blast
qed


lemma lit_lit:
  "rmatch (Cat (Lit a) (Cat (Lit b) r)) (n, t, g) =
     (case t of
        c1 # c2 # rest \<Rightarrow> if c1 = a \<and> c2 = b then rmatch r (Suc (Suc n), rest, g) else []
      | _ \<Rightarrow> [])"
  by (simp split: list.splits)

lemma open_span:
  "rmatch (Cat Bos (Cat (Star isspace) (Cat (Lit CHR ''$'') (Cat (Lit CHR ''{'') r)))) (0, s, []) =
     (case dropWhile isspace s of
        c1 # c2 # rest \<Rightarrow>
          if c1 = CHR ''$'' \<and> c2 = CHR ''{''
          then rmatch r (Suc (Suc (length (takeWhile isspace s))), rest, [])
          else []
      | _ \<Rightarrow> [])"
proof -
  have nsp: "\<not> isspace CHR ''$''" by (simp add: isspace_def)
  have "rmatch (Cat Bos (Cat (Star isspace) (Cat (Lit CHR ''$'') (Cat (Lit CHR ''{'') r)))) (0, s, [])
      = rmatch (Cat (Star isspace) (Cat (Lit CHR ''$'') (Cat (Lit CHR ''{'') r))) (0, s, [])"
    by simp
  also have "\<dots> = rmatch (Cat (Lit CHR ''$'') (Cat (Lit CHR ''{'') r))
                      (0 + length (takeWhile isspace s), dropWhile isspace s, [])"
    by (rule skip_space_then_lit[OF nsp])
  finally show ?thesis by (simp only: lit_lit add_0)
qed

lemma re_match_EXPR_RE_span:
  assumes "list_all isspace ws1" "CHR ''}'' \<notin> set body" "list_all isspace ws2"
  shows "re_match EXPR_RE (ws1 @ ''${'' @ body @ ''}'' @ ws2) = Some (dropWhile isspace body)"
proof -
  define r5 where "r5 = Cat (Star isspace) (Cat (Group (Star (\<lambda>c. c \<noteq> CHR ''}'')))
       (Cat (Star isspace) (Cat (Lit CHR ''}'') (Cat (Star isspace) Eos))))"
  have E: "EXPR_RE = Cat Bos (Cat (Star isspace) (Cat (Lit CHR ''$'') (Cat (Lit CHR ''{'') r5)))"
    by (simp add: EXPR_RE_def r5_def)
  have nsp: "\<not> isspace CHR ''$''" by (simp add: isspace_def)
  let ?s = "ws1 @ ''${'' @ body @ ''}'' @ ws2"
  have dw: "dropWhile isspace ?s = CHR ''$'' # CHR ''{'' # (body @ CHR ''}'' # ws2)"
    using assms(1) nsp by (simp add: dropWhile_append3 list_all_iff)
  obtain n' s' zs where
    "rmatch r5 (Suc (Suc (length (takeWhile isspace ?s))), body @ CHR ''}'' # ws2, [])
       = (n', s', dropWhile isspace body) # zs"
    unfolding r5_def using inner_match[OF assms(2,3)] by blast
  then have "rmatch EXPR_RE (0, ?s, []) = (n', s', dropWhile isspace body) # zs"
    by (simp only: E open_span dw list.case if_True simp_thms)
  then show ?thesis by (simp add: re_match_def)
qed

lemma re_match_EXPR_RE_only:
  assumes "re_match EXPR_RE s \<noteq> None"
  shows "\<exists>ws1 body ws2. s = ws1 @ ''${'' @ body @ ''}'' @ ws2 \<and>
           list_all isspace ws1 \<and> CHR ''}'' \<notin> set body \<and> list_all isspace ws2"
proof -
  define r5 where "r5 = Cat (Star isspace) (Cat (Group (Star (\<lambda>c. c \<noteq> CHR ''}'')))
       (Cat (Star isspace) (Cat (Lit CHR ''}'') (Cat (Star isspace) Eos))))"
  have E: "EXPR_RE = Cat Bos (Cat (Star isspace) (Cat (Lit CHR ''$'') (Cat (Lit CHR ''{'') r5)))"
    by (simp add: EXPR_RE_def r5_def)
  from assms have ne: "rmatch EXPR_RE (0, s, []) \<noteq> []"
    by (auto simp: re_match_def)
  then obtain rest where dw: "dropWhile isspace s = CHR ''$'' # CHR ''{'' # rest"
      and r5: "rmatch r5 (Suc (Suc (length (takeWhile isspace s))), rest, []) \<noteq> []"
    unfolding E open_span by (auto split: list.splits if_splits)
  from inner_match_only[OF r5[unfolded r5_def]] obtain body tail where
    bt: "rest = body @ CHR ''}'' # tail" "CHR ''}'' \<notin> set body" "list_all isspace tail"
    by blast
  have "s = takeWhile isspace s @ dropWhile isspace s" by simp
  then have "s = takeWhile isspace s @ ''${'' @ body @ ''}'' @ tail"
    using dw bt(1) by simp
  moreover have "list_all isspace (takeWhile isspace s)"
    by (simp add: list_all_iff) (meson set_takeWhileD)
  ultimately show ?thesis using bt(2,3) by blast
qed

lemma re_match_EXPR_RE_no_brace:
  "re_match EXPR_RE s = Some inner \<Longrightarrow> CHR ''}'' \<notin> set inner"
proof -
  assume a: "re_match EXPR_RE s = Some inner"
  then obtain ws1 body ws2 where d: "s = ws1 @ ''${'' @ body @ ''}'' @ ws2"
      "list_all isspace ws1" "CHR ''}'' \<notin> set body" "list_all isspace ws2"
    using re_match_EXPR_RE_only[of s] by auto
  then have "inner = dropWhile isspace body"
    using re_match_EXPR_RE_span[OF d(2,3,4)] a by simp
  then show ?thesis using d(3) by (meson set_dropWhileD)
qed

lemma re_match_EXPR_RE_needs_brace:
  assumes "CHR ''}'' \<notin> set s"
  shows "re_match EXPR_RE s = None"
proof (rule ccontr)
  assume "re_match EXPR_RE s \<noteq> None"
  then obtain ws1 body ws2 where "s = ws1 @ ''${'' @ body @ ''}'' @ ws2"
    using re_match_EXPR_RE_only by blast
  with assms show False by simp
qed

lemma strip_subset: "set (strip s) \<subseteq> set s"
  unfolding strip_def by (metis set_dropWhileD set_rev subsetI)

section \<open>Properties of the value normalizer\<close>

lemma set_update_subset: "set (AList.update k v al) \<subseteq> insert (k, v) (set al)"
  by (induction al) auto

lemma normalize_fold_inv:
  assumes "sorted (map fst acc @ map fst xs)" "distinct (map fst acc)"
    and "\<forall>kv \<in> set acc. Q kv"
    and "\<forall>kv \<in> set xs. fst kv \<noteq> ''provisioner'' \<and> fst kv \<noteq> ''connection'' \<longrightarrow> Q (fst kv, f (snd kv))"
  shows "sorted (map fst (fold (\<lambda>kv out.
                    if fst kv = ''provisioner'' \<or> fst kv = ''connection'' then out
                    else dict_set out (fst kv) (f (snd kv))) xs acc)) \<and>
         distinct (map fst (fold (\<lambda>kv out.
                    if fst kv = ''provisioner'' \<or> fst kv = ''connection'' then out
                    else dict_set out (fst kv) (f (snd kv))) xs acc)) \<and>
         (\<forall>kv \<in> set (fold (\<lambda>kv out.
                    if fst kv = ''provisioner'' \<or> fst kv = ''connection'' then out
                    else dict_set out (fst kv) (f (snd kv))) xs acc). Q kv)"
  using assms
proof (induction xs arbitrary: acc)
  case Nil
  then show ?case by simp
next
  case (Cons x xs)
  show ?case
  proof (cases "fst x = ''provisioner'' \<or> fst x = ''connection''")
    case True
    have "sorted (map fst acc @ map fst xs)"
      using Cons.prems(1) by (simp add: sorted_append)
    with True Cons.IH[of acc] Cons.prems show ?thesis by simp
  next
    case False
    let ?acc = "dict_set acc (fst x) (f (snd x))"
    have keys: "map fst ?acc = (if fst x \<in> set (map fst acc) then map fst acc else map fst acc @ [fst x])"
      by (simp add: dict_set_def update_keys)
    have 1: "sorted (map fst ?acc @ map fst xs)"
      using Cons.prems(1) by (auto simp: keys sorted_append)
    have 2: "distinct (map fst ?acc)"
      using Cons.prems(2) by (simp add: dict_set_def distinct_update)
    have 3: "\<forall>kv \<in> set ?acc. Q kv"
      using Cons.prems(3,4) False set_update_subset[of "fst x" "f (snd x)" acc]
      by (auto simp: dict_set_def)
    have 4: "\<forall>kv \<in> set xs. fst kv \<noteq> ''provisioner'' \<and> fst kv \<noteq> ''connection'' \<longrightarrow> Q (fst kv, f (snd kv))"
      using Cons.prems(4) by simp
    from Cons.IH[OF 1 2 3 4] False show ?thesis by simp
  qed
qed

lemma normal_form_expr:
  assumes "re_match EXPR_RE s = Some inner"
  shows "normal_form (PDict [(''$expr'', PStr (strip inner))])"
proof -
  have "CHR ''}'' \<notin> set (strip inner)"
    using re_match_EXPR_RE_no_brace[OF assms] strip_subset by blast
  then have "re_match EXPR_RE (strip inner) = None"
    by (rule re_match_EXPR_RE_needs_brace)
  then show ?thesis by simp
qed

lemma normal_form_normalize: "normal_form (normalize_value v)"
proof (induction v rule: normalize_value.induct)
  case (1 v)
  let ?Q = "\<lambda>kv. fst kv \<noteq> ''provisioner'' \<and> fst kv \<noteq> ''connection'' \<and> normal_form (snd kv)"
  let ?out = "fold (\<lambda>kv out.
                    if fst kv = ''provisioner'' \<or> fst kv = ''connection'' then out
                    else dict_set out (fst kv) (normalize_value (snd kv))) (sort_key fst v) []"
  have a: "sorted (map fst ([] :: pydict) @ map fst (sort_key fst v))" by simp
  have b: "distinct (map fst ([] :: pydict))" by simp
  have c: "\<forall>kv \<in> set ([] :: pydict). ?Q kv" by simp
  have d: "\<forall>kv \<in> set (sort_key fst v).
      fst kv \<noteq> ''provisioner'' \<and> fst kv \<noteq> ''connection'' \<longrightarrow> ?Q (fst kv, normalize_value (snd kv))"
    using 1 by simp
  have "sorted (map fst ?out) \<and> distinct (map fst ?out) \<and> (\<forall>kv \<in> set ?out. ?Q kv)"
    by (rule normalize_fold_inv[OF a b c d])
  then have "normal_form (PDict ?out)"
    unfolding normal_form.simps .
  then show ?case by (simp only: normalize_value.simps)
next
  case (2 v)
  then show ?case by simp
next
  case (3 v)
  show ?case
  proof (cases "re_match EXPR_RE v")
    case None
    then show ?thesis by simp
  next
    case (Some inner)
    then show ?thesis using normal_form_expr[OF Some] by (simp del: normal_form.simps)
  qed
qed simp_all

lemma fold_set_distinct:
  assumes "distinct (map fst (acc @ ys))"
    and "\<forall>kv \<in> set ys. fst kv \<noteq> ''provisioner'' \<and> fst kv \<noteq> ''connection'' \<and> f (snd kv) = snd kv"
  shows "fold (\<lambda>kv out.
                    if fst kv = ''provisioner'' \<or> fst kv = ''connection'' then out
                    else dict_set out (fst kv) (f (snd kv))) ys acc = acc @ ys"
  using assms
proof (induction ys arbitrary: acc)
  case Nil
  then show ?case by simp
next
  case (Cons y ys)
  have notin: "fst y \<notin> fst ` set acc" using Cons.prems(1) by auto
  have upd: "dict_set acc (fst y) (snd y) = acc @ [y]"
    using notin unfolding dict_set_def by (induction acc) auto
  have "distinct (map fst ((acc @ [y]) @ ys))" using Cons.prems(1) by simp
  from Cons.IH[OF this] Cons.prems(2) upd show ?case by simp
qed

lemma normalize_fixes_normal_form: "normal_form v \<Longrightarrow> normalize_value v = v"
proof (induction v rule: normalize_value.induct)
  case (1 v)
  have s: "sort_key fst v = v"
    using "1.prems" by (simp add: sort_key_id_if_sorted)
  have "\<forall>kv \<in> set v. fst kv \<noteq> ''provisioner'' \<and> fst kv \<noteq> ''connection'' \<and>
          normalize_value (snd kv) = snd kv"
    using "1.IH" "1.prems" s by auto
  moreover have "distinct (map fst ([] @ v))" using "1.prems" by simp
  ultimately have "fold (\<lambda>kv out.
                    if fst kv = ''provisioner'' \<or> fst kv = ''connection'' then out
                    else dict_set out (fst kv) (normalize_value (snd kv))) v [] = [] @ v"
    by (rule fold_set_distinct[rotated])
  then show ?case by (simp add: s)
next
  case (2 v)
  then show ?case by (simp add: map_idI)
qed simp_all

text \<open>
  C2. The value normalizer is idempotent: for every value, nested to any depth, normalizing
  the normalized value gives the normalized value again.
\<close>

theorem normalize_value_idempotent:
  "normalize_value (normalize_value v) = normalize_value v"
  by (rule normalize_fixes_normal_form) (rule normal_form_normalize)





section \<open>Properties of the metadata extractor\<close>

lemma dict_get_delete: "k' \<noteq> k \<Longrightarrow> dict_get (AList.delete k d) k' = dict_get d k'"
  by (simp add: dict_get_def)

lemma to_expr_or_val_normalize: "to_expr_or_val (PStr s) = normalize_value (PStr s)"
  by (simp add: to_expr_or_val_def split: option.splits)

lemma extract_meta_fst:
  "fst (extract_meta attrs) =
     ((case dict_get attrs ''count'' of PStr s \<Rightarrow> normalize_value (PStr s) | v \<Rightarrow> v),
      (case dict_get attrs ''for_each'' of PStr s \<Rightarrow> normalize_value (PStr s) | v \<Rightarrow> v),
      (case dict_get attrs ''depends_on'' of
         PNone \<Rightarrow> [] | PList xs \<Rightarrow> map py_str xs | v \<Rightarrow> [py_str v]),
      (case dict_get attrs ''provider'' of PStr s \<Rightarrow> Some s | _ \<Rightarrow> None))"
  by (simp add: extract_meta_def dict_pop_def dict_get_delete to_expr_or_val_def
           split: pyval.splits option.splits)

lemma extract_meta_snd:
  "snd (extract_meta attrs) =
     AList.delete ''provider'' (AList.delete ''depends_on''
       (AList.delete ''for_each'' (AList.delete ''count'' attrs)))"
  by (simp add: extract_meta_def dict_pop_def)

text \<open>
  C8. For every attribute dictionary, \<^verbatim>\<open>extract_meta\<close> returns: for \<^verbatim>\<open>count\<close> and for
  \<^verbatim>\<open>for_each\<close>, the value put through the expression detection of the normalizer when
  it is a string, the value itself when it is anything else, and \<^verbatim>\<open>None\<close> when the key is
  absent; for \<^verbatim>\<open>depends_on\<close>, the elements of a list each converted with \<^verbatim>\<open>str\<close>, in
  their order, a one-element list holding \<^verbatim>\<open>str\<close> of a string, integer or boolean, and
  the empty list when the key is absent or null; for the provider alias, the value of
  \<^verbatim>\<open>provider\<close> when it is a string, and \<^verbatim>\<open>None\<close> when it is absent or anything else.
\<close>

theorem extract_meta_values:
  "(case fst (extract_meta attrs) of (count_value, for_each, depends, provider_alias) \<Rightarrow>
     count_value =
       (case map_of attrs ''count'' of
          None \<Rightarrow> PNone | Some (PStr s) \<Rightarrow> normalize_value (PStr s) | Some v \<Rightarrow> v) \<and>
     for_each =
       (case map_of attrs ''for_each'' of
          None \<Rightarrow> PNone | Some (PStr s) \<Rightarrow> normalize_value (PStr s) | Some v \<Rightarrow> v) \<and>
     depends =
       (case map_of attrs ''depends_on'' of
          None \<Rightarrow> []
        | Some PNone \<Rightarrow> []
        | Some (PList xs) \<Rightarrow> map py_str xs
        | Some (PStr s) \<Rightarrow> [s]
        | Some v \<Rightarrow> [py_str v]) \<and>
     provider_alias =
       (case map_of attrs ''provider'' of Some (PStr s) \<Rightarrow> Some s | _ \<Rightarrow> None))"
  by (simp add: extract_meta_fst dict_get_def py_str_def split: option.splits pyval.splits)

theorem extract_meta_values_witness:
  "fst (extract_meta
     [(''ami'', PStr ''ami-1''), (''count'', PStr ''${var.n}''), (''for_each'', PInt 3),
      (''depends_on'', PList [PStr ''aws_vpc.main'', PInt 7]), (''provider'', PStr ''aws.west'')])
   = (PDict [(''$expr'', PStr ''var.n'')], PInt 3, [''aws_vpc.main'', ''7''], Some ''aws.west'')"
proof -
  have n: "normalize_value (PStr ''${var.n}'') = PDict [(''$expr'', PStr ''var.n'')]"
    by (simp add: re_match_def EXPR_RE_def isspace_def strip_def)
  have s: "str_int 7 = ''7''"
    by (simp add: str_int_def digit_char_def)
  show ?thesis
    using extract_meta_values[of
      "[(''ami'', PStr ''ami-1''), (''count'', PStr ''${var.n}''), (''for_each'', PInt 3),
        (''depends_on'', PList [PStr ''aws_vpc.main'', PInt 7]), (''provider'', PStr ''aws.west'')]"]
    by (auto simp: n s py_str_def simp del: normalize_value.simps)
qed

section \<open>Properties of the record builder\<close>

lemmas classify_defs =
  service_for_type_def IAM_PREFIX_def S3_PREFIX_def RDS_PREFIXES_def VPC_TYPES_def EC2_TYPES_def

lemmas record_defs =
  make_record_def extract_meta_def dict_pop_def dict_get_def to_expr_or_val_def
  ordered_dict_def dict_set_def re_match_def EXPR_RE_def isspace_def strip_def

lemma ordered_dict_keys: "fst ` set (ordered_dict pairs) \<subseteq> fst ` set pairs"
proof -
  have "fst ` set (fold (\<lambda>kv out. dict_set out (fst kv) (snd kv)) pairs acc)
        \<subseteq> fst ` set acc \<union> fst ` set pairs" for acc
  proof (induction pairs arbitrary: acc)
    case Nil
    then show ?case by simp
  next
    case (Cons p ps)
    have "fst ` set (dict_set acc (fst p) (snd p)) = {fst p} \<union> fst ` set acc"
      by (simp add: dict_set_def dom_update)
    with Cons[of "dict_set acc (fst p) (snd p)"] show ?case by auto
  qed
  from this[of "[]"] show ?thesis by (simp add: ordered_dict_def)
qed

lemma ordered_dict_values: "snd ` set (ordered_dict pairs) \<subseteq> snd ` set pairs"
proof -
  have "set (fold (\<lambda>kv out. dict_set out (fst kv) (snd kv)) pairs acc)
        \<subseteq> set acc \<union> set pairs" for acc
  proof (induction pairs arbitrary: acc)
    case Nil
    then show ?case by simp
  next
    case (Cons p ps)
    have "set (dict_set acc (fst p) (snd p)) \<subseteq> insert p (set acc)"
      using set_update_subset[of "fst p" "snd p" acc] by (simp add: dict_set_def)
    with Cons[of "dict_set acc (fst p) (snd p)"] show ?case by auto
  qed
  from this[of "[]"] show ?thesis by (auto simp: ordered_dict_def)
qed

lemma make_record_attributes:
  assumes "make_record kind rtype name body = Inr rec"
  shows "\<exists>m. body = PDict m \<and>
           r_attributes rec =
             ordered_dict (sort_key fst
               (map (\<lambda>kv. (fst kv, normalize_value (snd kv))) (snd (extract_meta m))))"
  using assms
  by (cases body)
     (auto simp: make_record_def split: if_splits option.splits prod.splits)

lemma attribute_keys:
  assumes "make_record kind rtype name body = Inr rec"
  shows "\<exists>m. body = PDict m \<and>
           fst ` set (r_attributes rec) \<subseteq>
             fst ` set m - {''count'', ''for_each'', ''depends_on'', ''provider''}"
proof -
  from make_record_attributes[OF assms] obtain m where m: "body = PDict m"
    "r_attributes rec =
       ordered_dict (sort_key fst
         (map (\<lambda>kv. (fst kv, normalize_value (snd kv))) (snd (extract_meta m))))"
    by blast
  have "fst ` set (r_attributes rec) \<subseteq> fst ` set (snd (extract_meta m))"
    using ordered_dict_keys[of "sort_key fst
         (map (\<lambda>kv. (fst kv, normalize_value (snd kv))) (snd (extract_meta m)))"]
    by (simp add: m(2) image_image)
  also have "\<dots> \<subseteq> fst ` set m - {''count'', ''for_each'', ''depends_on'', ''provider''}"
    by (auto simp: extract_meta_snd AList.delete_eq)
  finally show ?thesis using m(1) by blast
qed

lemma attribute_values:
  assumes "make_record kind rtype name body = Inr rec" and "(k, v) \<in> set (r_attributes rec)"
  shows "normal_form v"
proof -
  from make_record_attributes[OF assms(1)] obtain m where
    "r_attributes rec =
       ordered_dict (sort_key fst
         (map (\<lambda>kv. (fst kv, normalize_value (snd kv))) (snd (extract_meta m))))"
    by blast
  then have "snd ` set (r_attributes rec) \<subseteq> normalize_value ` snd ` set (snd (extract_meta m))"
    using ordered_dict_values[of "sort_key fst
         (map (\<lambda>kv. (fst kv, normalize_value (snd kv))) (snd (extract_meta m)))"]
    by (auto simp: image_image)
  with assms(2) obtain x where "v = normalize_value x" by force
  then show ?thesis by (simp add: normal_form_normalize)
qed

lemma normal_form_mentions:
  "normal_form v \<Longrightarrow> \<not> mentions ''provisioner'' v \<and> \<not> mentions ''connection'' v"
  by (induction v rule: normal_form.induct) auto

lemma nested_execution_blocks_dropped:
  assumes "make_record kind rtype name body = Inr rec" and "(k, v) \<in> set (r_attributes rec)"
  shows "\<not> mentions ''provisioner'' v \<and> \<not> mentions ''connection'' v"
  using attribute_values[OF assms] by (rule normal_form_mentions)

text \<open>
  C5. For every declaration that the record builder accepts, the keys \<^verbatim>\<open>count\<close>,
  \<^verbatim>\<open>for_each\<close>, \<^verbatim>\<open>depends_on\<close> and \<^verbatim>\<open>provider\<close> are not keys of the \<^verbatim>\<open>attributes\<close>
  of the record, whether or not the body had them.
\<close>

theorem make_record_metadata_isolation:
  assumes "make_record kind rtype name body = Inr rec"
  shows "''count'' \<notin> fst ` set (r_attributes rec) \<and>
         ''for_each'' \<notin> fst ` set (r_attributes rec) \<and>
         ''depends_on'' \<notin> fst ` set (r_attributes rec) \<and>
         ''provider'' \<notin> fst ` set (r_attributes rec)"
  using attribute_keys[OF assms] by auto

theorem make_record_metadata_isolation_witness:
  "make_record ''resource'' ''aws_instance'' ''web''
     (PDict [(''provider'', PStr ''aws.west''), (''count'', PInt 2), (''ami'', PStr ''ami-1''),
             (''depends_on'', PList [PStr ''aws_vpc.main'']), (''for_each'', PNone)]) =
   Inr \<lparr> r_address = ''aws_instance.web'', r_type = ''aws_instance'', r_name = ''web'',
         r_service = ''ec2'', r_mode = ''resource'', r_provider_alias = Some ''aws.west'',
         r_depends_on = [''aws_vpc.main''], r_count = PInt 2, r_for_each = PNone,
         r_attributes = [(''ami'', PStr ''ami-1'')] \<rparr> \<and>
   (''count'' \<notin> fst ` set [(''ami'', PStr ''ami-1'')] \<and>
    ''for_each'' \<notin> fst ` set [(''ami'', PStr ''ami-1'')] \<and>
    ''depends_on'' \<notin> fst ` set [(''ami'', PStr ''ami-1'')] \<and>
    ''provider'' \<notin> fst ` set [(''ami'', PStr ''ami-1'')])"
proof -
  have h: "make_record ''resource'' ''aws_instance'' ''web''
     (PDict [(''provider'', PStr ''aws.west''), (''count'', PInt 2), (''ami'', PStr ''ami-1''),
             (''depends_on'', PList [PStr ''aws_vpc.main'']), (''for_each'', PNone)]) =
   Inr \<lparr> r_address = ''aws_instance.web'', r_type = ''aws_instance'', r_name = ''web'',
         r_service = ''ec2'', r_mode = ''resource'', r_provider_alias = Some ''aws.west'',
         r_depends_on = [''aws_vpc.main''], r_count = PInt 2, r_for_each = PNone,
         r_attributes = [(''ami'', PStr ''ami-1'')] \<rparr>"
    by (simp add: record_defs classify_defs py_str_def)
  from make_record_metadata_isolation[OF h] h show ?thesis
    by (simp only: norm_record.simps simp_thms)
qed

text \<open>
  C4 says that the \<^verbatim>\<open>attributes\<close> of a record have no \<^verbatim>\<open>provisioner\<close> or
  \<^verbatim>\<open>connection\<close> key at any depth, the top level of the body included. The normalizer
  drops these keys from every dictionary it is applied to, and \<^verbatim>\<open>make_record\<close> applies it
  to each value of the body, not to the body: a \<^verbatim>\<open>provisioner\<close> block at the top level of
  a resource, which is where the parser puts it, stays in the attributes.
\<close>

theorem make_record_keeps_top_level_provisioner:
  "make_record ''resource'' ''aws_instance'' ''web''
     (PDict [(''provisioner'',
                PList [PDict [(''local-exec'', PDict [(''command'', PStr ''echo hi'')])]]),
             (''ami'', PStr ''ami-1'')]) =
   Inr \<lparr> r_address = ''aws_instance.web'', r_type = ''aws_instance'', r_name = ''web'',
         r_service = ''ec2'', r_mode = ''resource'', r_provider_alias = None,
         r_depends_on = [], r_count = PNone, r_for_each = PNone,
         r_attributes =
           [(''ami'', PStr ''ami-1''),
            (''provisioner'',
               PList [PDict [(''local-exec'', PDict [(''command'', PStr ''echo hi'')])]])] \<rparr>"
  by (simp add: record_defs classify_defs)

lemma provider_alias_of_body:
  "snd (snd (snd (fst (extract_meta m)))) =
     (case map_of m ''provider'' of Some (PStr s) \<Rightarrow> Some s | _ \<Rightarrow> None)"
  by (simp add: extract_meta_fst dict_get_def split: option.splits pyval.splits)

lemma make_record_dict:
  assumes "prefix ''aws_'' rtype" "service_for_type rtype = Some s"
  shows "make_record kind rtype name (PDict m) =
     (if (\<exists>a. map_of m ''provider'' = Some (PStr a) \<and> a \<noteq> [] \<and> \<not> prefix ''aws'' a)
      then Inl ''non_aws_provider_alias''
      else Inr \<lparr> r_address = rtype @ ''.'' @ name,
                 r_type = rtype,
                 r_name = name,
                 r_service = s,
                 r_mode = (if kind = ''data'' then ''data'' else ''resource''),
                 r_provider_alias =
                   (case map_of m ''provider'' of
                      Some (PStr a) \<Rightarrow> if a \<noteq> [] then Some a else None
                    | _ \<Rightarrow> None),
                 r_depends_on = fst (snd (snd (fst (extract_meta m)))),
                 r_count = fst (fst (extract_meta m)),
                 r_for_each = fst (snd (fst (extract_meta m))),
                 r_attributes =
                   ordered_dict (sort_key fst
                     (map (\<lambda>kv. (fst kv, normalize_value (snd kv))) (snd (extract_meta m)))) \<rparr>)"
proof -
  obtain c f d p r where e: "extract_meta m = ((c, f, d, p), r)"
    by (metis prod.exhaust)
  have p: "p = (case map_of m ''provider'' of Some (PStr s) \<Rightarrow> Some s | _ \<Rightarrow> None)"
    using provider_alias_of_body[of m] by (simp add: e)
  show ?thesis
    using assms by (auto simp: make_record_def e p split: option.splits pyval.splits)
qed

text \<open>
  C6, as amended. \<^verbatim>\<open>make_record\<close> returns exactly one of four reasons or a record, and the
  first check that fails decides: a type that does not start with \<^verbatim>\<open>aws_\<close> gives
  \<^verbatim>\<open>non_aws_provider\<close>; otherwise a type that the classification table does not map
  (\<^verbatim>\<open>aws_iam_\<close> to iam, \<^verbatim>\<open>aws_s3_\<close> to s3, \<^verbatim>\<open>aws_rds_\<close> and \<^verbatim>\<open>aws_db_\<close> to rds, the
  members of the VPC set to vpc and of the EC2 set to ec2) gives \<^verbatim>\<open>unsupported_service\<close>;
  otherwise a body that is not a dictionary gives \<^verbatim>\<open>malformed_block\<close>; otherwise a
  provider alias that is a non-empty string and is outside the namespace of the provider
  gives \<^verbatim>\<open>non_aws_provider_alias\<close>, which is stated for every alias that does not start
  with \<^verbatim>\<open>aws\<close>; otherwise a record with the service of the table is built, which is
  stated for a body without an alias, with an alias that is the empty string, and with
  the alias \<^verbatim>\<open>aws\<close> or one that starts with \<^verbatim>\<open>aws.\<close>. Nothing is stated about the other
  aliases that start with \<^verbatim>\<open>aws\<close>.
\<close>

theorem make_record_validation_order:
  "(\<not> prefix ''aws_'' rtype \<longrightarrow> make_record kind rtype name body = Inl ''non_aws_provider'') \<and>
   (prefix ''aws_'' rtype \<and> service_for_type rtype = None \<longrightarrow>
      make_record kind rtype name body = Inl ''unsupported_service'') \<and>
   (prefix ''aws_'' rtype \<and> service_for_type rtype = Some s \<and> (\<forall>m. body \<noteq> PDict m) \<longrightarrow>
      make_record kind rtype name body = Inl ''malformed_block'') \<and>
   (prefix ''aws_'' rtype \<and> service_for_type rtype = Some s \<and> body = PDict m \<and>
    map_of m ''provider'' = Some (PStr a) \<and> a \<noteq> [] \<and> \<not> prefix ''aws'' a \<longrightarrow>
      make_record kind rtype name body = Inl ''non_aws_provider_alias'') \<and>
   (prefix ''aws_'' rtype \<and> service_for_type rtype = Some s \<and> body = PDict m \<and>
    (\<forall>a. map_of m ''provider'' = Some (PStr a) \<longrightarrow>
         a = [] \<or> a = ''aws'' \<or> prefix ''aws.'' a) \<longrightarrow>
      (\<exists>rec. make_record kind rtype name body = Inr rec \<and> r_service rec = s \<and>
             r_type rec = rtype \<and> r_name rec = name \<and> r_address rec = rtype @ ''.'' @ name)) \<and>
   service_for_type rtype =
     (if prefix ''aws_iam_'' rtype then Some ''iam''
      else if prefix ''aws_s3_'' rtype then Some ''s3''
      else if prefix ''aws_rds_'' rtype \<or> prefix ''aws_db_'' rtype then Some ''rds''
      else if rtype \<in> VPC_TYPES then Some ''vpc''
      else if rtype \<in> EC2_TYPES then Some ''ec2''
      else None)"
proof (intro conjI impI)
  assume "\<not> prefix ''aws_'' rtype"
  then show "make_record kind rtype name body = Inl ''non_aws_provider''"
    by (simp add: make_record_def)
next
  assume "prefix ''aws_'' rtype \<and> service_for_type rtype = None"
  then show "make_record kind rtype name body = Inl ''unsupported_service''"
    by (simp add: make_record_def)
next
  assume "prefix ''aws_'' rtype \<and> service_for_type rtype = Some s \<and> (\<forall>m. body \<noteq> PDict m)"
  then show "make_record kind rtype name body = Inl ''malformed_block''"
    by (cases body) (simp_all add: make_record_def)
next
  assume a: "prefix ''aws_'' rtype \<and> service_for_type rtype = Some s \<and> body = PDict m \<and>
    map_of m ''provider'' = Some (PStr a) \<and> a \<noteq> [] \<and> \<not> prefix ''aws'' a"
  then have "make_record kind rtype name (PDict m) = Inl ''non_aws_provider_alias''"
    using make_record_dict[of rtype s kind name m] by auto
  with a show "make_record kind rtype name body = Inl ''non_aws_provider_alias''" by simp
next
  assume a: "prefix ''aws_'' rtype \<and> service_for_type rtype = Some s \<and> body = PDict m \<and>
    (\<forall>a. map_of m ''provider'' = Some (PStr a) \<longrightarrow>
         a = [] \<or> a = ''aws'' \<or> prefix ''aws.'' a)"
  have "prefix ''aws'' x" if "x = ''aws'' \<or> prefix ''aws.'' x" for x
    using that by (auto elim!: prefixE)
  with a have "\<not> (\<exists>a. map_of m ''provider'' = Some (PStr a) \<and> a \<noteq> [] \<and> \<not> prefix ''aws'' a)"
    by blast
  with a show "\<exists>rec. make_record kind rtype name body = Inr rec \<and> r_service rec = s \<and>
             r_type rec = rtype \<and> r_name rec = name \<and> r_address rec = rtype @ ''.'' @ name"
    using make_record_dict[of rtype s kind name m] by (simp del: append.simps)
next
  show "service_for_type rtype =
     (if prefix ''aws_iam_'' rtype then Some ''iam''
      else if prefix ''aws_s3_'' rtype then Some ''s3''
      else if prefix ''aws_rds_'' rtype \<or> prefix ''aws_db_'' rtype then Some ''rds''
      else if rtype \<in> VPC_TYPES then Some ''vpc''
      else if rtype \<in> EC2_TYPES then Some ''ec2''
      else None)"
    by (simp add: service_for_type_def IAM_PREFIX_def S3_PREFIX_def RDS_PREFIXES_def)
qed

theorem make_record_validation_order_witness:
  "make_record ''resource'' ''azurerm_resource_group'' ''rg'' (PDict []) = Inl ''non_aws_provider'' \<and>
   make_record ''resource'' ''aws_unknown_widget'' ''w'' (PDict []) = Inl ''unsupported_service'' \<and>
   make_record ''resource'' ''aws_instance'' ''web'' (PStr ''x'') = Inl ''malformed_block'' \<and>
   make_record ''resource'' ''aws_instance'' ''web'' (PDict [(''provider'', PStr ''google'')]) =
     Inl ''non_aws_provider_alias'' \<and>
   (\<exists>rec. make_record ''data'' ''aws_ami'' ''x'' (PDict [(''provider'', PStr ''aws.west'')]) = Inr rec \<and>
          r_service rec = ''ec2'' \<and> r_type rec = ''aws_ami'' \<and> r_name rec = ''x'' \<and>
          r_address rec = ''aws_ami'' @ ''.'' @ ''x'')"
proof -
  have 1: "\<not> prefix ''aws_'' ''azurerm_resource_group''" by simp
  have 2: "prefix ''aws_'' ''aws_unknown_widget'' \<and> service_for_type ''aws_unknown_widget'' = None"
    by (simp add: classify_defs)
  have 3: "prefix ''aws_'' ''aws_instance'' \<and> service_for_type ''aws_instance'' = Some ''ec2'' \<and>
           (\<forall>m. PStr ''x'' \<noteq> PDict m)"
    by (simp add: classify_defs)
  have 4: "prefix ''aws_'' ''aws_instance'' \<and> service_for_type ''aws_instance'' = Some ''ec2'' \<and>
           PDict [(''provider'', PStr ''google'')] = PDict [(''provider'', PStr ''google'')] \<and>
           map_of [(''provider'', PStr ''google'')] ''provider'' = Some (PStr ''google'') \<and>
           ''google'' \<noteq> [] \<and> \<not> prefix ''aws'' ''google''"
    by (simp add: classify_defs)
  have 5: "prefix ''aws_'' ''aws_ami'' \<and> service_for_type ''aws_ami'' = Some ''ec2'' \<and>
           PDict [(''provider'', PStr ''aws.west'')] = PDict [(''provider'', PStr ''aws.west'')] \<and>
           (\<forall>a. map_of [(''provider'', PStr ''aws.west'')] ''provider'' = Some (PStr a) \<longrightarrow>
                a = [] \<or> a = ''aws'' \<or> prefix ''aws.'' a)"
    by (simp add: classify_defs)
  note t = make_record_validation_order
  from t[of "''azurerm_resource_group''" "''resource''" "''rg''" "PDict []"] 1
  have a: "make_record ''resource'' ''azurerm_resource_group'' ''rg'' (PDict []) = Inl ''non_aws_provider''"
    by blast
  from t[of "''aws_unknown_widget''" "''resource''" "''w''" "PDict []"] 2
  have b: "make_record ''resource'' ''aws_unknown_widget'' ''w'' (PDict []) = Inl ''unsupported_service''"
    by blast
  from t[of "''aws_instance''" "''resource''" "''web''" "PStr ''x''" "''ec2''"] 3
  have c: "make_record ''resource'' ''aws_instance'' ''web'' (PStr ''x'') = Inl ''malformed_block''"
    by blast
  from t[of "''aws_instance''" "''resource''" "''web''" "PDict [(''provider'', PStr ''google'')]"
            "''ec2''" "[(''provider'', PStr ''google'')]" "''google''"] 4
  have d: "make_record ''resource'' ''aws_instance'' ''web'' (PDict [(''provider'', PStr ''google'')]) =
     Inl ''non_aws_provider_alias''"
    by blast
  from t[of "''aws_ami''" "''data''" "''x''" "PDict [(''provider'', PStr ''aws.west'')]"
            "''ec2''" "[(''provider'', PStr ''aws.west'')]"] 5
  have e: "\<exists>rec. make_record ''data'' ''aws_ami'' ''x'' (PDict [(''provider'', PStr ''aws.west'')]) = Inr rec \<and>
          r_service rec = ''ec2'' \<and> r_type rec = ''aws_ami'' \<and> r_name rec = ''x'' \<and>
          r_address rec = ''aws_ami'' @ ''.'' @ ''x''"
    by blast
  from a b c d e show ?thesis by blast
qed

text \<open>
  C6 as it is stated fails for an alias that is the empty string: \<^verbatim>\<open>extract_meta\<close>
  returns it as the alias, it does not start with \<^verbatim>\<open>aws\<close>, and \<^verbatim>\<open>make_record\<close> builds a
  record, whose \<^verbatim>\<open>provider_alias\<close> is \<^verbatim>\<open>None\<close>.
\<close>

theorem make_record_empty_alias_counterexample:
  "snd (snd (snd (fst (extract_meta [(''provider'', PStr '''')])))) = Some '''' \<and>
   \<not> prefix ''aws'' '''' \<and>
   make_record ''resource'' ''aws_instance'' ''web'' (PDict [(''provider'', PStr '''')]) =
     Inr \<lparr> r_address = ''aws_instance.web'', r_type = ''aws_instance'', r_name = ''web'',
           r_service = ''ec2'', r_mode = ''resource'', r_provider_alias = None,
           r_depends_on = [], r_count = PNone, r_for_each = PNone, r_attributes = [] \<rparr>"
  by (simp add: record_defs classify_defs)

section \<open>Properties of the document collector\<close>

lemma collect_section_entries:
  "collect_section kind incl section acc =
     fold (collect_entry kind incl) (iter_resource_entries section) acc"
  by (simp add: collect_section_def collect_entry_def[abs_def])

lemma fold_concat_lists: "fold f (concat xss) acc = fold (\<lambda>xs. fold f xs) xss acc"
  by (induction xss arbitrary: acc) simp_all

lemma iter_resource_entries_dicts [simp]:
  "iter_resource_entries (PList (map PDict ms)) = concat ms"
  by (simp add: iter_resource_entries_def comp_def)

lemma iter_resource_entries_dict [simp]: "iter_resource_entries (PDict m) = m"
  by (simp add: iter_resource_entries_def)

lemma iter_name_bodies_dicts [simp]:
  "iter_name_bodies (PList (map PDict bs)) = concat bs"
  by (simp add: iter_name_bodies_def comp_def)

lemma iter_name_bodies_dict [simp]: "iter_name_bodies (PDict m) = m"
  by (simp add: iter_name_bodies_def)

lemma concat_singletons: "concat (map (\<lambda>e. [e]) m) = m"
  by (induction m) simp_all

lemma collect_entry_blocks_shape:
  "collect_entry kind incl (t, PList (map PDict bs)) acc =
   collect_entry kind incl (t, PDict (concat bs)) acc"
  by (simp add: collect_entry_def)

lemma collect_entry_blocks_each:
  "collect_entry kind incl (t, PList (map PDict bs)) acc =
   fold (\<lambda>b. collect_entry kind incl (t, PDict b)) bs acc"
  by (simp add: collect_entry_def[abs_def] fold_concat_lists)

lemma collect_from_doc_sections:
  "dict_get doc ''resource'' = dict_get doc' ''resource'' \<Longrightarrow>
   dict_get doc ''data'' = dict_get doc' ''data'' \<Longrightarrow>
   collect_from_doc doc incl = collect_from_doc doc' incl"
  by (simp add: collect_from_doc_def)

lemma collect_from_doc_entries:
  "iter_resource_entries (dict_get doc ''resource'') = iter_resource_entries (dict_get doc' ''resource'') \<Longrightarrow>
   iter_resource_entries (dict_get doc ''data'') = iter_resource_entries (dict_get doc' ''data'') \<Longrightarrow>
   collect_from_doc doc incl = collect_from_doc doc' incl"
  by (simp add: collect_from_doc_def collect_section_entries)


lemma dict_get_Cons:
  "dict_get ((k, v) # rest) k' = (if k = k' then v else dict_get rest k')"
  by (simp add: dict_get_def)

lemma collect_entry_not_container:
  "(\<forall>m. blocks \<noteq> PDict m) \<Longrightarrow> (\<forall>xs. blocks \<noteq> PList xs) \<Longrightarrow>
   collect_entry kind incl (t, blocks) acc = acc"
  by (cases blocks) (simp_all add: collect_entry_def iter_name_bodies_def)

lemma iter_resource_entries_skip:
  "(\<forall>m. e \<noteq> PDict m) \<Longrightarrow>
   iter_resource_entries (PList (pre @ e # post)) = iter_resource_entries (PList (pre @ post))"
  by (cases e) (simp_all add: iter_resource_entries_def)

lemma iter_name_bodies_skip:
  "(\<forall>m. b \<noteq> PDict m) \<Longrightarrow>
   iter_name_bodies (PList (pre @ b # post)) = iter_name_bodies (PList (pre @ post))"
  by (cases b) (simp_all add: iter_name_bodies_def)

lemma built_append: "built kind (xs @ ys) = built kind xs @ built kind ys"
  by (simp add: built_def)

lemma refused_append: "refused kind (xs @ ys) = refused kind xs @ refused kind ys"
  by (simp add: refused_def)

lemma visit_outcome:
  "visit kind incl t nb acc =
     (fst acc @ built kind [(t, fst nb, snd nb)],
      snd acc @ (if incl then refused kind [(t, fst nb, snd nb)] else []))"
  by (cases "make_record kind t (fst nb) (snd nb)")
     (simp_all add: visit_def built_def refused_def prod_eq_iff)

lemma fold_visit_outcome:
  "fold (visit kind incl t) nbs acc =
     (fst acc @ built kind (map (\<lambda>nb. (t, fst nb, snd nb)) nbs),
      snd acc @ (if incl then refused kind (map (\<lambda>nb. (t, fst nb, snd nb)) nbs) else []))"
proof (induction nbs arbitrary: acc)
  case Nil
  then show ?case by (simp add: built_def refused_def)
next
  case (Cons nb nbs)
  have "fold (visit kind incl t) (nb # nbs) acc =
        fold (visit kind incl t) nbs (visit kind incl t nb acc)"
    by simp
  also have "\<dots> =
     (fst (visit kind incl t nb acc) @ built kind (map (\<lambda>nb. (t, fst nb, snd nb)) nbs),
      snd (visit kind incl t nb acc) @
        (if incl then refused kind (map (\<lambda>nb. (t, fst nb, snd nb)) nbs) else []))"
    by (rule Cons.IH)
  also have "\<dots> =
     (fst acc @ built kind ([(t, fst nb, snd nb)] @ map (\<lambda>nb. (t, fst nb, snd nb)) nbs),
      snd acc @ (if incl
                 then refused kind ([(t, fst nb, snd nb)] @ map (\<lambda>nb. (t, fst nb, snd nb)) nbs)
                 else []))"
    by (simp only: visit_outcome built_append refused_append fst_conv snd_conv append_assoc
          if_distrib[of "\<lambda>x. _ @ x"] split: if_splits) simp
  finally show ?case by simp
qed

lemma collect_entry_outcome:
  "collect_entry kind incl tb acc =
     (fst acc @ built kind (declarations (PDict [tb])),
      snd acc @ (if incl then refused kind (declarations (PDict [tb])) else []))"
  by (simp add: collect_entry_def fold_visit_outcome declarations_def built_def refused_def)

lemma declarations_entries:
  "declarations section =
     concat (map (\<lambda>tb. declarations (PDict [tb])) (iter_resource_entries section))"
  by (simp add: declarations_def)

lemma fold_collect_entry_outcome:
  "fold (collect_entry kind incl) es acc =
     (fst acc @ built kind (concat (map (\<lambda>tb. declarations (PDict [tb])) es)),
      snd acc @ (if incl then refused kind (concat (map (\<lambda>tb. declarations (PDict [tb])) es))
                 else []))"
proof (induction es arbitrary: acc)
  case Nil
  then show ?case by (simp add: built_def refused_def)
next
  case (Cons e es)
  let ?ds = "concat (map (\<lambda>tb. declarations (PDict [tb])) es)"
  have "fold (collect_entry kind incl) (e # es) acc =
        fold (collect_entry kind incl) es (collect_entry kind incl e acc)"
    by simp
  also have "\<dots> =
     (fst (collect_entry kind incl e acc) @ built kind ?ds,
      snd (collect_entry kind incl e acc) @ (if incl then refused kind ?ds else []))"
    by (rule Cons.IH)
  also have "\<dots> =
     (fst acc @ built kind (declarations (PDict [e]) @ ?ds),
      snd acc @ (if incl then refused kind (declarations (PDict [e]) @ ?ds) else []))"
    by (cases incl) (simp_all only: collect_entry_outcome built_append
          refused_append fst_conv snd_conv append_assoc if_True if_False append_Nil2)
  finally show ?case by simp
qed

lemma collect_section_outcome:
  "collect_section kind incl section acc =
     (fst acc @ built kind (declarations section),
      snd acc @ (if incl then refused kind (declarations section) else []))"
  by (simp only: collect_section_entries fold_collect_entry_outcome declarations_entries[of "section"])

lemma collect_from_doc_outcome:
  "collect_from_doc doc incl =
     (built ''resource'' (declarations (dict_get doc ''resource'')),
      built ''data'' (declarations (dict_get doc ''data'')),
      if incl
      then refused ''resource'' (declarations (dict_get doc ''resource'')) @
           refused ''data'' (declarations (dict_get doc ''data''))
      else [])"
  by (simp add: collect_from_doc_def collect_section_outcome)

lemma concat_map_concat:
  "concat (map f (concat xss)) = concat (map (\<lambda>xs. concat (map f xs)) xss)"
  by (induction xss) simp_all

lemma declarations_sequence:
  "declarations (PList (map PDict ms)) = concat (map (\<lambda>m. declarations (PDict m)) ms)"
  by (simp add: declarations_def concat_map_concat)

lemma declarations_mapping:
  "declarations (PDict [(t, PDict nbs)]) = map (\<lambda>nb. (t, fst nb, snd nb)) nbs"
  by (simp add: declarations_def)

lemma declarations_blocks_sequence:
  "declarations (PDict [(t, PList (map PDict bs))]) = map (\<lambda>nb. (t, fst nb, snd nb)) (concat bs)"
  by (simp add: declarations_def)

text \<open>
  C3. A section given as a sequence of dictionaries is collected as the dictionary that
  holds the entries of all of them, in their order: the direct mapping
  \<^verbatim>\<open>{type: {name: body}}\<close> and the sequence \<^verbatim>\<open>[{type: {name: body}}]\<close> give the same
  output of \<^verbatim>\<open>collect_from_doc\<close>; every entry of the sequence is collected in turn, so a
  type that appears in several entries has all its instances visited; and the same holds
  one level down, for the blocks of a type given as a sequence of dictionaries from
  instance name to body. The output of \<^verbatim>\<open>collect_from_doc\<close> is the records built from
  the declarations of the resource section, the records built from those of the data
  section and, when they are asked for, the ignored items of both; the declarations of a
  sequence of dictionaries are those of each dictionary, one after the other. So two
  instances of one type that sit in two entries of a section, in one mapping or in two
  entries of the blocks of the type all give the same two records.
\<close>

theorem collect_from_doc_shape_equivalence:
  "collect_from_doc [(sec, PDict [(t, PDict [(n, body)])])] incl =
   collect_from_doc [(sec, PList [PDict [(t, PDict [(n, body)])]])] incl \<and>
   collect_from_doc ((sec, PList (map PDict ms)) # rest) incl =
   collect_from_doc ((sec, PDict (concat ms)) # rest) incl \<and>
   collect_section kind incl (PList (map PDict ms)) acc =
   fold (\<lambda>m. collect_section kind incl (PDict m)) ms acc \<and>
   collect_section kind incl (PDict (pre @ (t, PList (map PDict bs)) # post)) acc =
   collect_section kind incl (PDict (pre @ (t, PDict (concat bs)) # post)) acc \<and>
   collect_section kind incl (PDict [(t, PList (map PDict bs))]) acc =
   fold (\<lambda>b. collect_section kind incl (PDict [(t, PDict b)])) bs acc \<and>
   collect_from_doc [(sec, PDict [(t, PList [PDict [(n, body)]])])] incl =
   collect_from_doc [(sec, PDict [(t, PDict [(n, body)])])] incl \<and>
   collect_from_doc doc incl =
     (built ''resource'' (declarations (dict_get doc ''resource'')),
      built ''data'' (declarations (dict_get doc ''data'')),
      if incl
      then refused ''resource'' (declarations (dict_get doc ''resource'')) @
           refused ''data'' (declarations (dict_get doc ''data''))
      else []) \<and>
   declarations (PList (map PDict ms)) = concat (map (\<lambda>m. declarations (PDict m)) ms) \<and>
   declarations (PDict [(t, PDict nbs)]) = map (\<lambda>nb. (t, fst nb, snd nb)) nbs \<and>
   declarations (PDict [(t, PList (map PDict bs))]) =
     map (\<lambda>nb. (t, fst nb, snd nb)) (concat bs) \<and>
   (make_record ''resource'' t n1 b1 = Inr r1 \<and> make_record ''resource'' t n2 b2 = Inr r2 \<longrightarrow>
      collect_from_doc
        [(''resource'', PList [PDict [(t, PDict [(n1, b1)])], PDict [(t, PDict [(n2, b2)])]])]
        incl = ([r1, r2], [], []) \<and>
      collect_from_doc [(''resource'', PDict [(t, PDict [(n1, b1), (n2, b2)])])] incl =
        ([r1, r2], [], []) \<and>
      collect_from_doc
        [(''resource'', PDict [(t, PList [PDict [(n1, b1)], PDict [(n2, b2)]])])] incl =
        ([r1, r2], [], [])) \<and>
   (make_record ''data'' t n1 b1 = Inr d1 \<and> make_record ''data'' t n2 b2 = Inr d2 \<longrightarrow>
      collect_from_doc
        [(''data'', PList [PDict [(t, PDict [(n1, b1)])], PDict [(t, PDict [(n2, b2)])]])]
        incl = ([], [d1, d2], []) \<and>
      collect_from_doc [(''data'', PDict [(t, PDict [(n1, b1), (n2, b2)])])] incl =
        ([], [d1, d2], []) \<and>
      collect_from_doc
        [(''data'', PDict [(t, PList [PDict [(n1, b1)], PDict [(n2, b2)]])])] incl =
        ([], [d1, d2], []))"
proof (intro conjI impI)
  have "iter_resource_entries (PList (map PDict [[(t, PDict [(n, body)])]])) =
        iter_resource_entries (PDict [(t, PDict [(n, body)])])"
    by (simp only: iter_resource_entries_dicts iter_resource_entries_dict) simp
  then show "collect_from_doc [(sec, PDict [(t, PDict [(n, body)])])] incl =
      collect_from_doc [(sec, PList [PDict [(t, PDict [(n, body)])]])] incl"
    by (intro collect_from_doc_entries) (simp_all add: dict_get_Cons)
next
  show "collect_from_doc ((sec, PList (map PDict ms)) # rest) incl =
      collect_from_doc ((sec, PDict (concat ms)) # rest) incl"
    by (intro collect_from_doc_entries) (simp_all add: dict_get_Cons)
next
  show "collect_section kind incl (PList (map PDict ms)) acc =
      fold (\<lambda>m. collect_section kind incl (PDict m)) ms acc"
    by (simp add: collect_section_entries[abs_def] fold_concat_lists)
next
  show "collect_section kind incl (PDict (pre @ (t, PList (map PDict bs)) # post)) acc =
      collect_section kind incl (PDict (pre @ (t, PDict (concat bs)) # post)) acc"
    by (simp add: collect_section_entries collect_entry_blocks_shape)
next
  show "collect_section kind incl (PDict [(t, PList (map PDict bs))]) acc =
      fold (\<lambda>b. collect_section kind incl (PDict [(t, PDict b)])) bs acc"
    by (simp add: collect_section_entries[abs_def] collect_entry_blocks_each)
next
  have "collect_entry kind' incl (t, PList (map PDict [[(n, body)]])) a =
        collect_entry kind' incl (t, PDict (concat [[(n, body)]])) a" for kind' a
    by (rule collect_entry_blocks_shape)
  then show "collect_from_doc [(sec, PDict [(t, PList [PDict [(n, body)]])])] incl =
      collect_from_doc [(sec, PDict [(t, PDict [(n, body)])])] incl"
    by (simp add: collect_from_doc_def collect_section_entries dict_get_Cons)
next
  show "collect_from_doc doc incl =
     (built ''resource'' (declarations (dict_get doc ''resource'')),
      built ''data'' (declarations (dict_get doc ''data'')),
      if incl
      then refused ''resource'' (declarations (dict_get doc ''resource'')) @
           refused ''data'' (declarations (dict_get doc ''data''))
      else [])"
    by (rule collect_from_doc_outcome)
next
  show "declarations (PList (map PDict ms)) = concat (map (\<lambda>m. declarations (PDict m)) ms)"
    by (rule declarations_sequence)
next
  show "declarations (PDict [(t, PDict nbs)]) = map (\<lambda>nb. (t, fst nb, snd nb)) nbs"
    by (rule declarations_mapping)
next
  show "declarations (PDict [(t, PList (map PDict bs))]) =
     map (\<lambda>nb. (t, fst nb, snd nb)) (concat bs)"
    by (rule declarations_blocks_sequence)
next
  assume a: "make_record ''resource'' t n1 b1 = Inr r1 \<and> make_record ''resource'' t n2 b2 = Inr r2"
  have d1: "declarations (PList (map PDict [[(t, PDict [(n1, b1)])], [(t, PDict [(n2, b2)])]])) =
            [(t, n1, b1), (t, n2, b2)]"
    by (simp only: declarations_sequence) (simp add: declarations_mapping)
  have d2: "declarations (PDict [(t, PDict [(n1, b1), (n2, b2)])]) = [(t, n1, b1), (t, n2, b2)]"
    by (simp add: declarations_mapping)
  have d3: "declarations (PDict [(t, PList (map PDict [[(n1, b1)], [(n2, b2)]]))]) =
            [(t, n1, b1), (t, n2, b2)]"
    by (simp only: declarations_blocks_sequence) simp
  have e: "declarations PNone = []"
    by (simp add: declarations_def iter_resource_entries_def)
  have b: "built ''resource'' [(t, n1, b1), (t, n2, b2)] = [r1, r2]"
    using a by (simp add: built_def)
  have r: "refused ''resource'' [(t, n1, b1), (t, n2, b2)] = []"
    using a by (simp add: refused_def)
  have z: "built k [] = []" "refused k [] = []" for k
    by (simp_all add: built_def refused_def)
  show "collect_from_doc
        [(''resource'', PList [PDict [(t, PDict [(n1, b1)])], PDict [(t, PDict [(n2, b2)])]])]
        incl = ([r1, r2], [], [])"
    using d1 by (simp add: collect_from_doc_outcome dict_get_Cons dict_get_def e b r z)
  show "collect_from_doc [(''resource'', PDict [(t, PDict [(n1, b1), (n2, b2)])])] incl =
        ([r1, r2], [], [])"
    by (simp add: collect_from_doc_outcome dict_get_Cons dict_get_def e d2 b r z)
  show "collect_from_doc
        [(''resource'', PDict [(t, PList [PDict [(n1, b1)], PDict [(n2, b2)]])])] incl =
        ([r1, r2], [], [])"
    using d3 by (simp add: collect_from_doc_outcome dict_get_Cons dict_get_def e b r z)
next
  assume a: "make_record ''data'' t n1 b1 = Inr d1 \<and> make_record ''data'' t n2 b2 = Inr d2"
  have d1: "declarations (PList (map PDict [[(t, PDict [(n1, b1)])], [(t, PDict [(n2, b2)])]])) =
            [(t, n1, b1), (t, n2, b2)]"
    by (simp only: declarations_sequence) (simp add: declarations_mapping)
  have d2: "declarations (PDict [(t, PDict [(n1, b1), (n2, b2)])]) = [(t, n1, b1), (t, n2, b2)]"
    by (simp add: declarations_mapping)
  have d3: "declarations (PDict [(t, PList (map PDict [[(n1, b1)], [(n2, b2)]]))]) =
            [(t, n1, b1), (t, n2, b2)]"
    by (simp only: declarations_blocks_sequence) simp
  have e: "declarations PNone = []"
    by (simp add: declarations_def iter_resource_entries_def)
  have b: "built ''data'' [(t, n1, b1), (t, n2, b2)] = [d1, d2]"
    using a by (simp add: built_def)
  have r: "refused ''data'' [(t, n1, b1), (t, n2, b2)] = []"
    using a by (simp add: refused_def)
  have z: "built k [] = []" "refused k [] = []" for k
    by (simp_all add: built_def refused_def)
  show "collect_from_doc
        [(''data'', PList [PDict [(t, PDict [(n1, b1)])], PDict [(t, PDict [(n2, b2)])]])]
        incl = ([], [d1, d2], [])"
    using d1 by (simp add: collect_from_doc_outcome dict_get_Cons dict_get_def e b r z)
  show "collect_from_doc [(''data'', PDict [(t, PDict [(n1, b1), (n2, b2)])])] incl =
        ([], [d1, d2], [])"
    by (simp add: collect_from_doc_outcome dict_get_Cons dict_get_def e d2 b r z)
  show "collect_from_doc
        [(''data'', PDict [(t, PList [PDict [(n1, b1)], PDict [(n2, b2)]])])] incl =
        ([], [d1, d2], [])"
    using d3 by (simp add: collect_from_doc_outcome dict_get_Cons dict_get_def e b r z)
qed

theorem collect_from_doc_shape_equivalence_witness:
  "make_record ''resource'' ''aws_instance'' ''a'' (PDict []) =
     Inr \<lparr> r_address = ''aws_instance.a'', r_type = ''aws_instance'', r_name = ''a'',
            r_service = ''ec2'', r_mode = ''resource'', r_provider_alias = None,
            r_depends_on = [], r_count = PNone, r_for_each = PNone, r_attributes = [] \<rparr> \<and>
   make_record ''resource'' ''aws_instance'' ''b'' (PDict []) =
     Inr \<lparr> r_address = ''aws_instance.b'', r_type = ''aws_instance'', r_name = ''b'',
            r_service = ''ec2'', r_mode = ''resource'', r_provider_alias = None,
            r_depends_on = [], r_count = PNone, r_for_each = PNone, r_attributes = [] \<rparr> \<and>
   collect_from_doc
     [(''resource'', PList [PDict [(''aws_instance'', PDict [(''a'', PDict [])])],
                            PDict [(''aws_instance'', PDict [(''b'', PDict [])])]])] False =
     ([\<lparr> r_address = ''aws_instance.a'', r_type = ''aws_instance'', r_name = ''a'',
          r_service = ''ec2'', r_mode = ''resource'', r_provider_alias = None,
          r_depends_on = [], r_count = PNone, r_for_each = PNone, r_attributes = [] \<rparr>,
       \<lparr> r_address = ''aws_instance.b'', r_type = ''aws_instance'', r_name = ''b'',
          r_service = ''ec2'', r_mode = ''resource'', r_provider_alias = None,
          r_depends_on = [], r_count = PNone, r_for_each = PNone, r_attributes = [] \<rparr>], [], []) \<and>
   make_record ''data'' ''aws_ami'' ''a'' (PDict []) =
     Inr \<lparr> r_address = ''aws_ami.a'', r_type = ''aws_ami'', r_name = ''a'',
            r_service = ''ec2'', r_mode = ''data'', r_provider_alias = None,
            r_depends_on = [], r_count = PNone, r_for_each = PNone, r_attributes = [] \<rparr> \<and>
   make_record ''data'' ''aws_ami'' ''b'' (PDict []) =
     Inr \<lparr> r_address = ''aws_ami.b'', r_type = ''aws_ami'', r_name = ''b'',
            r_service = ''ec2'', r_mode = ''data'', r_provider_alias = None,
            r_depends_on = [], r_count = PNone, r_for_each = PNone, r_attributes = [] \<rparr> \<and>
   collect_from_doc
     [(''data'', PList [PDict [(''aws_ami'', PDict [(''a'', PDict [])])],
                        PDict [(''aws_ami'', PDict [(''b'', PDict [])])]])] True =
     ([], [\<lparr> r_address = ''aws_ami.a'', r_type = ''aws_ami'', r_name = ''a'',
              r_service = ''ec2'', r_mode = ''data'', r_provider_alias = None,
              r_depends_on = [], r_count = PNone, r_for_each = PNone, r_attributes = [] \<rparr>,
           \<lparr> r_address = ''aws_ami.b'', r_type = ''aws_ami'', r_name = ''b'',
              r_service = ''ec2'', r_mode = ''data'', r_provider_alias = None,
              r_depends_on = [], r_count = PNone, r_for_each = PNone, r_attributes = [] \<rparr>], [])"
proof -
  have ra: "make_record ''resource'' ''aws_instance'' ''a'' (PDict []) =
     Inr \<lparr> r_address = ''aws_instance.a'', r_type = ''aws_instance'', r_name = ''a'',
            r_service = ''ec2'', r_mode = ''resource'', r_provider_alias = None,
            r_depends_on = [], r_count = PNone, r_for_each = PNone, r_attributes = [] \<rparr>"
    by (simp add: record_defs classify_defs)
  have rb: "make_record ''resource'' ''aws_instance'' ''b'' (PDict []) =
     Inr \<lparr> r_address = ''aws_instance.b'', r_type = ''aws_instance'', r_name = ''b'',
            r_service = ''ec2'', r_mode = ''resource'', r_provider_alias = None,
            r_depends_on = [], r_count = PNone, r_for_each = PNone, r_attributes = [] \<rparr>"
    by (simp add: record_defs classify_defs)
  have da: "make_record ''data'' ''aws_ami'' ''a'' (PDict []) =
     Inr \<lparr> r_address = ''aws_ami.a'', r_type = ''aws_ami'', r_name = ''a'',
            r_service = ''ec2'', r_mode = ''data'', r_provider_alias = None,
            r_depends_on = [], r_count = PNone, r_for_each = PNone, r_attributes = [] \<rparr>"
    by (simp add: record_defs classify_defs)
  have db: "make_record ''data'' ''aws_ami'' ''b'' (PDict []) =
     Inr \<lparr> r_address = ''aws_ami.b'', r_type = ''aws_ami'', r_name = ''b'',
            r_service = ''ec2'', r_mode = ''data'', r_provider_alias = None,
            r_depends_on = [], r_count = PNone, r_for_each = PNone, r_attributes = [] \<rparr>"
    by (simp add: record_defs classify_defs)
  note r = collect_from_doc_shape_equivalence
    [where t = "''aws_instance''" and ?n1.0 = "''a''" and ?b1.0 = "PDict []"
       and ?n2.0 = "''b''" and ?b2.0 = "PDict []" and incl = False,
     THEN conjunct2, THEN conjunct2, THEN conjunct2, THEN conjunct2, THEN conjunct2,
     THEN conjunct2, THEN conjunct2, THEN conjunct2, THEN conjunct2, THEN conjunct2,
     THEN conjunct1, THEN mp, OF conjI[OF ra rb], THEN conjunct1]
  note d = collect_from_doc_shape_equivalence
    [where t = "''aws_ami''" and ?n1.0 = "''a''" and ?b1.0 = "PDict []"
       and ?n2.0 = "''b''" and ?b2.0 = "PDict []" and incl = True,
     THEN conjunct2, THEN conjunct2, THEN conjunct2, THEN conjunct2, THEN conjunct2,
     THEN conjunct2, THEN conjunct2, THEN conjunct2, THEN conjunct2, THEN conjunct2,
     THEN conjunct2, THEN mp, OF conjI[OF da db], THEN conjunct1]
  from ra rb r da db d show ?thesis by (intro conjI)
qed

text \<open>
  C10. Blocks of a type that are neither a dictionary nor a list, an element of a section
  list that is not a dictionary and an element of a list of blocks that is not a dictionary
  leave no trace: the collector returns what it returns without them, and for a document
  that holds nothing else it returns no record and no ignored item, also with
  \<^verbatim>\<open>include_ignored\<close> set.
\<close>

theorem collect_from_doc_silent_drop:
  "((\<forall>m. blocks \<noteq> PDict m) \<and> (\<forall>xs. blocks \<noteq> PList xs) \<longrightarrow>
      collect_section kind incl (PDict (pre @ (t, blocks) # post)) acc =
      collect_section kind incl (PDict (pre @ post)) acc \<and>
      collect_from_doc [(''resource'', PDict [(t, blocks)]), (''data'', PDict [(t, blocks)])] True =
        ([], [], [])) \<and>
   ((\<forall>m. e \<noteq> PDict m) \<longrightarrow>
      collect_section kind incl (PList (es @ e # es')) acc =
      collect_section kind incl (PList (es @ es')) acc \<and>
      collect_section kind incl (PDict (pre @ (t, PList (es @ e # es')) # post)) acc =
      collect_section kind incl (PDict (pre @ (t, PList (es @ es')) # post)) acc \<and>
      collect_from_doc [(''resource'', PList [e]), (''data'', PList [e])] True = ([], [], []) \<and>
      collect_from_doc [(''resource'', PDict [(t, PList [e])]),
                        (''data'', PDict [(t, PList [e])])] True = ([], [], []))"
proof (intro conjI impI)
  assume a: "(\<forall>m. blocks \<noteq> PDict m) \<and> (\<forall>xs. blocks \<noteq> PList xs)"
  then have c: "collect_entry k i (t, blocks) x = x" for k i x
    using collect_entry_not_container by blast
  show "collect_section kind incl (PDict (pre @ (t, blocks) # post)) acc =
      collect_section kind incl (PDict (pre @ post)) acc"
    by (simp add: collect_section_entries c)
  show "collect_from_doc [(''resource'', PDict [(t, blocks)]), (''data'', PDict [(t, blocks)])] True =
        ([], [], [])"
    by (simp add: collect_from_doc_def collect_section_entries dict_get_Cons c)
next
  assume a: "\<forall>m. e \<noteq> PDict m"
  show "collect_section kind incl (PList (es @ e # es')) acc =
      collect_section kind incl (PList (es @ es')) acc"
    by (simp only: collect_section_entries iter_resource_entries_skip[OF a])
  have n: "iter_name_bodies (PList (xs @ e # ys)) = iter_name_bodies (PList (xs @ ys))" for xs ys
    by (rule iter_name_bodies_skip[OF a])
  have "collect_entry kind incl (t, PList (es @ e # es')) x =
        collect_entry kind incl (t, PList (es @ es')) x" for x
    by (simp add: collect_entry_def n)
  then show "collect_section kind incl (PDict (pre @ (t, PList (es @ e # es')) # post)) acc =
      collect_section kind incl (PDict (pre @ (t, PList (es @ es')) # post)) acc"
    by (simp add: collect_section_entries)
  have r: "iter_resource_entries (PList [e]) = []"
    using iter_resource_entries_skip[OF a, of "[]" "[]"] by (simp add: iter_resource_entries_def)
  show "collect_from_doc [(''resource'', PList [e]), (''data'', PList [e])] True = ([], [], [])"
    by (simp add: collect_from_doc_def collect_section_entries dict_get_Cons r)
  have b: "iter_name_bodies (PList [e]) = []"
    using n[of "[]" "[]"] by (simp add: iter_name_bodies_def)
  show "collect_from_doc [(''resource'', PDict [(t, PList [e])]),
                        (''data'', PDict [(t, PList [e])])] True = ([], [], [])"
    by (simp add: collect_from_doc_def collect_section_entries dict_get_Cons collect_entry_def b)
qed


theorem collect_from_doc_silent_drop_witness:
  "(\<forall>m. PStr ''oops'' \<noteq> PDict m) \<and> (\<forall>xs. PStr ''oops'' \<noteq> PList xs) \<and> (\<forall>m. PInt 5 \<noteq> PDict m) \<and>
   collect_from_doc [(''resource'', PDict [(''aws_instance'', PStr ''oops'')]),
                     (''data'', PDict [(''aws_instance'', PStr ''oops'')])] True = ([], [], []) \<and>
   collect_from_doc [(''resource'', PList [PInt 5]), (''data'', PList [PInt 5])] True = ([], [], []) \<and>
   collect_from_doc [(''resource'', PDict [(''aws_instance'', PList [PInt 5])]),
                     (''data'', PDict [(''aws_instance'', PList [PInt 5])])] True = ([], [], [])"
proof -
  have h1: "(\<forall>m. PStr ''oops'' \<noteq> PDict m) \<and> (\<forall>xs. PStr ''oops'' \<noteq> PList xs)" by simp
  have h2: "\<forall>m. PInt 5 \<noteq> PDict m" by simp
  from collect_from_doc_silent_drop[of "PStr ''oops''" _ _ _ "''aws_instance''" _ _ "PInt 5"] h1 h2
  show ?thesis by blast
qed

section \<open>Properties of the service organizer\<close>

lemma sort_records_key: "sort_records recs = sort_key record_key recs"
  by (simp add: sort_records_def record_key_def[abs_def])

lemma sorted_sort_records: "sorted (map record_key (sort_records recs))"
  by (simp add: sort_records_key)

lemma add_resources_spec:
  assumes "\<forall>r \<in> set rs. r_service r \<in> fst ` set sv"
  shows "\<exists>sv'. add_resources sv rs = Some sv' \<and> map fst sv' = map fst sv \<and>
           (\<forall>k b. map_of sv k = Some b \<longrightarrow>
              map_of sv' k =
                Some (b\<lparr>resources := resources b @ filter (\<lambda>r. r_service r = k) rs\<rparr>))"
  using assms
proof (induction rs arbitrary: sv)
  case Nil
  then show ?case by simp
next
  case (Cons r rs)
  from Cons.prems have "r_service r \<in> fst ` set sv" by simp
  then obtain b where b: "map_of sv (r_service r) = Some b"
    by (metis map_of_eq_None_iff not_Some_eq)
  let ?sv1 = "AList.update (r_service r) (b\<lparr>resources := resources b @ [r]\<rparr>) sv"
  have keys1: "map fst ?sv1 = map fst sv"
    using \<open>r_service r \<in> fst ` set sv\<close> by (simp add: update_keys)
  have look1: "map_of ?sv1 = (map_of sv)(r_service r \<mapsto> b\<lparr>resources := resources b @ [r]\<rparr>)"
    by (rule update_conv')
  have "\<forall>x \<in> set rs. r_service x \<in> fst ` set ?sv1"
    using Cons.prems keys1 by (metis list.set_intros(2) set_map)
  from Cons.IH[OF this] obtain sv' where sv':
    "add_resources ?sv1 rs = Some sv'" "map fst sv' = map fst ?sv1"
    "\<forall>k b. map_of ?sv1 k = Some b \<longrightarrow>
       map_of sv' k = Some (b\<lparr>resources := resources b @ filter (\<lambda>r. r_service r = k) rs\<rparr>)"
    by blast
  have "\<forall>k b0. map_of sv k = Some b0 \<longrightarrow>
       map_of sv' k =
         Some (b0\<lparr>resources := resources b0 @ filter (\<lambda>x. r_service x = k) (r # rs)\<rparr>)"
  proof (intro allI impI)
    fix k b0 assume k: "map_of sv k = Some b0"
    show "map_of sv' k =
         Some (b0\<lparr>resources := resources b0 @ filter (\<lambda>x. r_service x = k) (r # rs)\<rparr>)"
    proof (cases "k = r_service r")
      case True
      with k b have "b0 = b" by simp
      have "map_of ?sv1 k = Some (b\<lparr>resources := resources b @ [r]\<rparr>)"
        using True by (simp add: look1)
      with sv'(3) have "map_of sv' k =
        Some ((b\<lparr>resources := resources b @ [r]\<rparr>)
               \<lparr>resources := resources (b\<lparr>resources := resources b @ [r]\<rparr>) @
                   filter (\<lambda>r. r_service r = k) rs\<rparr>)"
        by blast
      then show ?thesis using True \<open>b0 = b\<close> by simp
    next
      case False
      then have "map_of ?sv1 k = Some b0" using k by (simp add: look1)
      with sv'(3) have "map_of sv' k =
         Some (b0\<lparr>resources := resources b0 @ filter (\<lambda>r. r_service r = k) rs\<rparr>)"
        by blast
      then show ?thesis using False by auto
    qed
  qed
  with sv'(1,2) keys1 b show ?case by simp
qed

lemma add_datas_spec:
  assumes "\<forall>r \<in> set ds. r_service r \<in> fst ` set sv"
  shows "\<exists>sv'. add_datas sv ds = Some sv' \<and> map fst sv' = map fst sv \<and>
           (\<forall>k b. map_of sv k = Some b \<longrightarrow>
              map_of sv' k =
                Some (b\<lparr>data_sources := data_sources b @ filter (\<lambda>r. r_service r = k) ds\<rparr>))"
  using assms
proof (induction ds arbitrary: sv)
  case Nil
  then show ?case by simp
next
  case (Cons r rs)
  from Cons.prems have "r_service r \<in> fst ` set sv" by simp
  then obtain b where b: "map_of sv (r_service r) = Some b"
    by (metis map_of_eq_None_iff not_Some_eq)
  let ?sv1 = "AList.update (r_service r) (b\<lparr>data_sources := data_sources b @ [r]\<rparr>) sv"
  have keys1: "map fst ?sv1 = map fst sv"
    using \<open>r_service r \<in> fst ` set sv\<close> by (simp add: update_keys)
  have look1: "map_of ?sv1 = (map_of sv)(r_service r \<mapsto> b\<lparr>data_sources := data_sources b @ [r]\<rparr>)"
    by (rule update_conv')
  have "\<forall>x \<in> set rs. r_service x \<in> fst ` set ?sv1"
    using Cons.prems keys1 by (metis list.set_intros(2) set_map)
  from Cons.IH[OF this] obtain sv' where sv':
    "add_datas ?sv1 rs = Some sv'" "map fst sv' = map fst ?sv1"
    "\<forall>k b. map_of ?sv1 k = Some b \<longrightarrow>
       map_of sv' k = Some (b\<lparr>data_sources := data_sources b @ filter (\<lambda>r. r_service r = k) rs\<rparr>)"
    by blast
  have "\<forall>k b0. map_of sv k = Some b0 \<longrightarrow>
       map_of sv' k =
         Some (b0\<lparr>data_sources := data_sources b0 @ filter (\<lambda>x. r_service x = k) (r # rs)\<rparr>)"
  proof (intro allI impI)
    fix k b0 assume k: "map_of sv k = Some b0"
    show "map_of sv' k =
         Some (b0\<lparr>data_sources := data_sources b0 @ filter (\<lambda>x. r_service x = k) (r # rs)\<rparr>)"
    proof (cases "k = r_service r")
      case True
      with k b have "b0 = b" by simp
      have "map_of ?sv1 k = Some (b\<lparr>data_sources := data_sources b @ [r]\<rparr>)"
        using True by (simp add: look1)
      with sv'(3) have "map_of sv' k =
        Some ((b\<lparr>data_sources := data_sources b @ [r]\<rparr>)
               \<lparr>data_sources := data_sources (b\<lparr>data_sources := data_sources b @ [r]\<rparr>) @
                   filter (\<lambda>r. r_service r = k) rs\<rparr>)"
        by blast
      then show ?thesis using True \<open>b0 = b\<close> by simp
    next
      case False
      then have "map_of ?sv1 k = Some b0" using k by (simp add: look1)
      with sv'(3) have "map_of sv' k =
         Some (b0\<lparr>data_sources := data_sources b0 @ filter (\<lambda>r. r_service r = k) rs\<rparr>)"
        by blast
      then show ?thesis using False by auto
    qed
  qed
  with sv'(1,2) keys1 b show ?case by simp
qed

lemma sort_buckets_spec:
  assumes "set ks \<subseteq> fst ` set sv" "distinct ks"
  shows "\<exists>sv'. sort_buckets sv ks = Some sv' \<and> map fst sv' = map fst sv \<and>
           (\<forall>k b. map_of sv k = Some b \<longrightarrow>
              map_of sv' k =
                Some (if k \<in> set ks
                      then \<lparr> resources = sort_records (resources b),
                             data_sources = sort_records (data_sources b) \<rparr>
                      else b))"
  using assms
proof (induction ks arbitrary: sv)
  case Nil
  then show ?case by simp
next
  case (Cons k0 ks)
  from Cons.prems have in0: "k0 \<in> fst ` set sv" by simp
  then obtain b where b: "map_of sv k0 = Some b"
    by (metis map_of_eq_None_iff not_Some_eq)
  let ?b = "\<lparr> resources = sort_records (resources b), data_sources = sort_records (data_sources b) \<rparr>"
  let ?sv1 = "AList.update k0 ?b sv"
  have keys1: "map fst ?sv1 = map fst sv"
    using in0 by (simp add: update_keys)
  have look1: "map_of ?sv1 = (map_of sv)(k0 \<mapsto> ?b)"
    by (rule update_conv')
  have "set ks \<subseteq> fst ` set ?sv1"
    using Cons.prems(1) keys1 by (metis list.set_intros(2) set_map subset_code(1))
  moreover have "distinct ks" using Cons.prems(2) by simp
  ultimately obtain sv' where sv':
    "sort_buckets ?sv1 ks = Some sv'" "map fst sv' = map fst ?sv1"
    "\<forall>k b. map_of ?sv1 k = Some b \<longrightarrow>
       map_of sv' k =
         Some (if k \<in> set ks
               then \<lparr> resources = sort_records (resources b),
                      data_sources = sort_records (data_sources b) \<rparr>
               else b)"
    using Cons.IH[of ?sv1] by blast
  have "\<forall>k b1. map_of sv k = Some b1 \<longrightarrow>
       map_of sv' k =
         Some (if k \<in> set (k0 # ks)
               then \<lparr> resources = sort_records (resources b1),
                      data_sources = sort_records (data_sources b1) \<rparr>
               else b1)"
  proof (intro allI impI)
    fix k b1 assume k: "map_of sv k = Some b1"
    show "map_of sv' k =
         Some (if k \<in> set (k0 # ks)
               then \<lparr> resources = sort_records (resources b1),
                      data_sources = sort_records (data_sources b1) \<rparr>
               else b1)"
    proof (cases "k = k0")
      case True
      with k b have "b1 = b" by simp
      have "k \<notin> set ks" using True Cons.prems(2) by simp
      moreover have "map_of ?sv1 k = Some ?b" using True by (simp add: look1)
      ultimately have "map_of sv' k = Some ?b" using sv'(3) by force
      then show ?thesis using True \<open>b1 = b\<close> by simp
    next
      case False
      then have "map_of ?sv1 k = Some b1" using k by (simp add: look1)
      with sv'(3) show ?thesis using False by simp
    qed
  qed
  with sv'(1,2) keys1 b show ?case by simp
qed

lemma organize_by_service_spec:
  assumes "\<forall>r \<in> set rs \<union> set ds. r_service r \<in> set SERVICES_KEYS"
  shows "\<exists>sv. organize_by_service rs ds = Some sv \<and> map fst sv = SERVICES_KEYS \<and>
           (\<forall>k \<in> set SERVICES_KEYS.
              map_of sv k =
                Some \<lparr> resources = sort_records (filter (\<lambda>r. r_service r = k) rs),
                       data_sources = sort_records (filter (\<lambda>r. r_service r = k) ds) \<rparr>)"
proof -
  let ?sv0 = "map (\<lambda>k. (k, \<lparr> resources = [], data_sources = [] \<rparr>)) SERVICES_KEYS"
  have k0: "map fst ?sv0 = SERVICES_KEYS" by (simp add: comp_def)
  then have f0: "fst ` set ?sv0 = set SERVICES_KEYS" by (metis set_map)
  have l0: "\<forall>k \<in> set SERVICES_KEYS. map_of ?sv0 k = Some \<lparr> resources = [], data_sources = [] \<rparr>"
    by (simp add: SERVICES_KEYS_def)
  from assms have "\<forall>r \<in> set rs. r_service r \<in> fst ` set ?sv0" by (simp only: f0) blast
  from add_resources_spec[OF this] obtain sv1 where sv1:
    "add_resources ?sv0 rs = Some sv1" "map fst sv1 = map fst ?sv0"
    "\<forall>k b. map_of ?sv0 k = Some b \<longrightarrow>
       map_of sv1 k = Some (b\<lparr>resources := resources b @ filter (\<lambda>r. r_service r = k) rs\<rparr>)"
    by blast
  have f1: "fst ` set sv1 = set SERVICES_KEYS" using sv1(2) k0 by (metis set_map)
  from assms have "\<forall>r \<in> set ds. r_service r \<in> fst ` set sv1" by (simp only: f1) blast
  from add_datas_spec[OF this] obtain sv2 where sv2:
    "add_datas sv1 ds = Some sv2" "map fst sv2 = map fst sv1"
    "\<forall>k b. map_of sv1 k = Some b \<longrightarrow>
       map_of sv2 k = Some (b\<lparr>data_sources := data_sources b @ filter (\<lambda>r. r_service r = k) ds\<rparr>)"
    by blast
  have f2: "fst ` set sv2 = set SERVICES_KEYS" using sv2(2) sv1(2) k0 by (metis set_map)
  have "set SERVICES_KEYS \<subseteq> fst ` set sv2" using f2 by simp
  moreover have "distinct SERVICES_KEYS" by (simp add: SERVICES_KEYS_def)
  ultimately obtain sv3 where sv3:
    "sort_buckets sv2 SERVICES_KEYS = Some sv3" "map fst sv3 = map fst sv2"
    "\<forall>k b. map_of sv2 k = Some b \<longrightarrow>
       map_of sv3 k =
         Some (if k \<in> set SERVICES_KEYS
               then \<lparr> resources = sort_records (resources b),
                      data_sources = sort_records (data_sources b) \<rparr>
               else b)"
    using sort_buckets_spec[of SERVICES_KEYS sv2] by blast
  have "\<forall>k \<in> set SERVICES_KEYS.
          map_of sv3 k =
            Some \<lparr> resources = sort_records (filter (\<lambda>r. r_service r = k) rs),
                   data_sources = sort_records (filter (\<lambda>r. r_service r = k) ds) \<rparr>"
  proof
    fix k assume k: "k \<in> set SERVICES_KEYS"
    with l0 have "map_of ?sv0 k = Some \<lparr> resources = [], data_sources = [] \<rparr>" by blast
    with sv1(3) have "map_of sv1 k =
        Some \<lparr> resources = filter (\<lambda>r. r_service r = k) rs, data_sources = [] \<rparr>"
      by force
    with sv2(3) have "map_of sv2 k =
        Some \<lparr> resources = filter (\<lambda>r. r_service r = k) rs,
               data_sources = filter (\<lambda>r. r_service r = k) ds \<rparr>"
      by force
    with sv3(3) k show "map_of sv3 k =
            Some \<lparr> resources = sort_records (filter (\<lambda>r. r_service r = k) rs),
                   data_sources = sort_records (filter (\<lambda>r. r_service r = k) ds) \<rparr>"
      by force
  qed
  moreover have "organize_by_service rs ds = Some sv3"
    by (simp add: organize_by_service_def sv1(1) sv2(1) sv3(1))
  moreover have "map fst sv3 = SERVICES_KEYS"
    using sv3(2) sv2(2) sv1(2) k0 by simp
  ultimately show ?thesis by blast
qed

lemma assemble_spec:
  assumes "\<forall>r \<in> set rs \<union> set ds. r_service r \<in> set SERVICES_KEYS"
  shows "assemble incl (rs, ds, ig) =
     Some \<lparr> e_version = ''1.0'', e_provider = ''aws'',
            e_services =
              map (\<lambda>k. (k, \<lparr> resources = sort_records (filter (\<lambda>r. r_service r = k) rs),
                              data_sources = sort_records (filter (\<lambda>r. r_service r = k) ds) \<rparr>))
                  SERVICES_KEYS,
            e_ignored = (if incl then Some (sort_key ignored_key ig) else None) \<rparr>"
proof -
  from organize_by_service_spec[OF assms] obtain sv where sv:
    "organize_by_service rs ds = Some sv"
    "\<forall>k \<in> set SERVICES_KEYS.
       map_of sv k =
         Some \<lparr> resources = sort_records (filter (\<lambda>r. r_service r = k) rs),
                data_sources = sort_records (filter (\<lambda>r. r_service r = k) ds) \<rparr>"
    by blast
  let ?f = "\<lambda>k. (k, \<lparr> resources = sort_records (filter (\<lambda>r. r_service r = k) rs),
                        data_sources = sort_records (filter (\<lambda>r. r_service r = k) ds) \<rparr>)"
  have eq: "map (\<lambda>k. map_option (Pair k) (map_of sv k)) SERVICES_KEYS =
        map (\<lambda>k. Some (?f k)) SERVICES_KEYS"
    by (rule map_cong[OF refl]) (simp add: sv(2))
  have th: "those (map (\<lambda>k. Some (f k)) ks) = Some (map f ks)"
    for f :: "string \<Rightarrow> string \<times> bucket" and ks
    by (induction ks) simp_all
  have "those (map (\<lambda>k. map_option (Pair k) (map_of sv k)) SERVICES_KEYS) =
        Some (map ?f SERVICES_KEYS)"
    unfolding eq by (rule th)
  then show ?thesis by (simp add: assemble_def sv(1))
qed


lemma sorted_key_order:
  assumes "sorted (map f xs)" "i < length xs" "j < length xs" "f (xs ! i) < f (xs ! j)"
  shows "i < j"
proof (rule ccontr)
  assume "\<not> i < j"
  then have "j \<le> i" by simp
  then have "map f xs ! j \<le> map f xs ! i"
    using assms(1,2) by (simp add: sorted_iff_nth_mono del: nth_map)
  then have "f (xs ! j) \<le> f (xs ! i)" using assms(2,3) by simp
  with assms(4) show False by simp
qed

lemma name_a_before_b:
  assumes "r_type x = r_type y" "r_name x = ''a''" "r_name y = ''b''"
  shows "(r_type x, r_name x, r_address x) < (r_type y, r_name y, r_address y)"
  using assms by (simp add: less_prod_def less_eq_prod_def)

lemma sort_records_a_before_b:
  assumes "i < length (sort_records recs)" "j < length (sort_records recs)"
    and "r_type (sort_records recs ! i) = r_type (sort_records recs ! j)"
    and "r_name (sort_records recs ! i) = ''a''" "r_name (sort_records recs ! j) = ''b''"
  shows "i < j"
proof -
  have "record_key (sort_records recs ! i) < record_key (sort_records recs ! j)"
    unfolding record_key_def using assms(3,4,5) by (rule name_a_before_b)
  with sorted_sort_records[of recs] assms(1,2) show ?thesis
    by (rule sorted_key_order)
qed

text \<open>
  C9. For all resource and data records whose service is one of the five service keys, as
  it is for every record that \<^verbatim>\<open>make_record\<close> builds, the envelope is built and its
  \<^verbatim>\<open>services\<close> has exactly the keys ec2, iam, rds, s3, vpc, in this order, each of them
  also when no record belongs to it; the \<^verbatim>\<open>resources\<close> and the \<^verbatim>\<open>data_sources\<close> of a
  key are the records of that service, sorted in ascending order of the triple of type,
  name and address; so in every bucket a record named \<^verbatim>\<open>a\<close> comes before a record of the
  same type named \<^verbatim>\<open>b\<close>.
\<close>

theorem envelope_services_fixed_and_sorted:
  assumes "\<forall>r \<in> set rs \<union> set ds. r_service r \<in> set SERVICES_KEYS"
  shows "\<exists>env. assemble incl (rs, ds, ig) = Some env \<and>
     map fst (e_services env) = [''ec2'', ''iam'', ''rds'', ''s3'', ''vpc''] \<and>
     (\<forall>kb \<in> set (e_services env).
        set (resources (snd kb)) = {r \<in> set rs. r_service r = fst kb} \<and>
        set (data_sources (snd kb)) = {d \<in> set ds. r_service d = fst kb} \<and>
        length (resources (snd kb)) = length (filter (\<lambda>r. r_service r = fst kb) rs) \<and>
        length (data_sources (snd kb)) = length (filter (\<lambda>d. r_service d = fst kb) ds) \<and>
        sorted (map (\<lambda>r. (r_type r, r_name r, r_address r)) (resources (snd kb))) \<and>
        sorted (map (\<lambda>r. (r_type r, r_name r, r_address r)) (data_sources (snd kb))) \<and>
        (\<forall>i j. i < length (resources (snd kb)) \<and> j < length (resources (snd kb)) \<and>
               r_type (resources (snd kb) ! i) = r_type (resources (snd kb) ! j) \<and>
               r_name (resources (snd kb) ! i) = ''a'' \<and>
               r_name (resources (snd kb) ! j) = ''b'' \<longrightarrow> i < j) \<and>
        (\<forall>i j. i < length (data_sources (snd kb)) \<and> j < length (data_sources (snd kb)) \<and>
               r_type (data_sources (snd kb) ! i) = r_type (data_sources (snd kb) ! j) \<and>
               r_name (data_sources (snd kb) ! i) = ''a'' \<and>
               r_name (data_sources (snd kb) ! j) = ''b'' \<longrightarrow> i < j))"
proof -
  let ?b = "\<lambda>k. \<lparr> resources = sort_records (filter (\<lambda>r. r_service r = k) rs),
                   data_sources = sort_records (filter (\<lambda>r. r_service r = k) ds) \<rparr>"
  let ?env = "\<lparr> e_version = ''1.0'', e_provider = ''aws'',
                e_services = map (\<lambda>k. (k, ?b k)) SERVICES_KEYS,
                e_ignored = (if incl then Some (sort_key ignored_key ig) else None) \<rparr>"
  have env: "assemble incl (rs, ds, ig) = Some ?env"
    by (rule assemble_spec[OF assms])
  have keys: "map fst (e_services ?env) = [''ec2'', ''iam'', ''rds'', ''s3'', ''vpc'']"
    by (simp add: SERVICES_KEYS_def)
  have buckets: "\<forall>kb \<in> set (e_services ?env).
        set (resources (snd kb)) = {r \<in> set rs. r_service r = fst kb} \<and>
        set (data_sources (snd kb)) = {d \<in> set ds. r_service d = fst kb} \<and>
        length (resources (snd kb)) = length (filter (\<lambda>r. r_service r = fst kb) rs) \<and>
        length (data_sources (snd kb)) = length (filter (\<lambda>d. r_service d = fst kb) ds) \<and>
        sorted (map (\<lambda>r. (r_type r, r_name r, r_address r)) (resources (snd kb))) \<and>
        sorted (map (\<lambda>r. (r_type r, r_name r, r_address r)) (data_sources (snd kb))) \<and>
        (\<forall>i j. i < length (resources (snd kb)) \<and> j < length (resources (snd kb)) \<and>
               r_type (resources (snd kb) ! i) = r_type (resources (snd kb) ! j) \<and>
               r_name (resources (snd kb) ! i) = ''a'' \<and>
               r_name (resources (snd kb) ! j) = ''b'' \<longrightarrow> i < j) \<and>
        (\<forall>i j. i < length (data_sources (snd kb)) \<and> j < length (data_sources (snd kb)) \<and>
               r_type (data_sources (snd kb) ! i) = r_type (data_sources (snd kb) ! j) \<and>
               r_name (data_sources (snd kb) ! i) = ''a'' \<and>
               r_name (data_sources (snd kb) ! j) = ''b'' \<longrightarrow> i < j)"
  proof
    fix kb assume "kb \<in> set (e_services ?env)"
    then obtain k where kb: "kb = (k, ?b k)" by auto
    have 1: "set (resources (snd kb)) = {r \<in> set rs. r_service r = fst kb}"
      by (simp add: kb sort_records_def)
    have 2: "set (data_sources (snd kb)) = {d \<in> set ds. r_service d = fst kb}"
      by (simp add: kb sort_records_def)
    have 3: "length (resources (snd kb)) = length (filter (\<lambda>r. r_service r = fst kb) rs)"
      by (simp add: kb sort_records_def)
    have 4: "length (data_sources (snd kb)) = length (filter (\<lambda>d. r_service d = fst kb) ds)"
      by (simp add: kb sort_records_def)
    have 5: "sorted (map (\<lambda>r. (r_type r, r_name r, r_address r)) (resources (snd kb)))"
      by (simp add: kb sort_records_def)
    have 6: "sorted (map (\<lambda>r. (r_type r, r_name r, r_address r)) (data_sources (snd kb)))"
      by (simp add: kb sort_records_def)
    have 7: "\<forall>i j. i < length (resources (snd kb)) \<and> j < length (resources (snd kb)) \<and>
               r_type (resources (snd kb) ! i) = r_type (resources (snd kb) ! j) \<and>
               r_name (resources (snd kb) ! i) = ''a'' \<and>
               r_name (resources (snd kb) ! j) = ''b'' \<longrightarrow> i < j"
      unfolding kb snd_conv bucket.simps using sort_records_a_before_b by blast
    have 8: "\<forall>i j. i < length (data_sources (snd kb)) \<and> j < length (data_sources (snd kb)) \<and>
               r_type (data_sources (snd kb) ! i) = r_type (data_sources (snd kb) ! j) \<and>
               r_name (data_sources (snd kb) ! i) = ''a'' \<and>
               r_name (data_sources (snd kb) ! j) = ''b'' \<longrightarrow> i < j"
      unfolding kb snd_conv bucket.simps using sort_records_a_before_b by blast
    from 1 2 3 4 5 6 7 8 show
       "set (resources (snd kb)) = {r \<in> set rs. r_service r = fst kb} \<and>
        set (data_sources (snd kb)) = {d \<in> set ds. r_service d = fst kb} \<and>
        length (resources (snd kb)) = length (filter (\<lambda>r. r_service r = fst kb) rs) \<and>
        length (data_sources (snd kb)) = length (filter (\<lambda>d. r_service d = fst kb) ds) \<and>
        sorted (map (\<lambda>r. (r_type r, r_name r, r_address r)) (resources (snd kb))) \<and>
        sorted (map (\<lambda>r. (r_type r, r_name r, r_address r)) (data_sources (snd kb))) \<and>
        (\<forall>i j. i < length (resources (snd kb)) \<and> j < length (resources (snd kb)) \<and>
               r_type (resources (snd kb) ! i) = r_type (resources (snd kb) ! j) \<and>
               r_name (resources (snd kb) ! i) = ''a'' \<and>
               r_name (resources (snd kb) ! j) = ''b'' \<longrightarrow> i < j) \<and>
        (\<forall>i j. i < length (data_sources (snd kb)) \<and> j < length (data_sources (snd kb)) \<and>
               r_type (data_sources (snd kb) ! i) = r_type (data_sources (snd kb) ! j) \<and>
               r_name (data_sources (snd kb) ! i) = ''a'' \<and>
               r_name (data_sources (snd kb) ! j) = ''b'' \<longrightarrow> i < j)"
      by blast
  qed
  show ?thesis
  proof (intro exI conjI)
    show "assemble incl (rs, ds, ig) = Some ?env" by (rule env)
    show "map fst (e_services ?env) = [''ec2'', ''iam'', ''rds'', ''s3'', ''vpc'']" by (rule keys)
  qed (rule buckets)
qed


theorem envelope_services_fixed_and_sorted_witness:
  "r_service
     (\<lparr> r_address = ''aws_instance.b'', r_type = ''aws_instance'', r_name = ''b'',
        r_service = ''ec2'', r_mode = ''resource'', r_provider_alias = None,
        r_depends_on = [], r_count = PNone, r_for_each = PNone, r_attributes = [] \<rparr>) \<in> set SERVICES_KEYS \<and>
   r_service
     (\<lparr> r_address = ''aws_instance.a'', r_type = ''aws_instance'', r_name = ''a'',
        r_service = ''ec2'', r_mode = ''resource'', r_provider_alias = None,
        r_depends_on = [], r_count = PNone, r_for_each = PNone, r_attributes = [] \<rparr>) \<in> set SERVICES_KEYS \<and>
   (\<exists>env.
      assemble False
        ([\<lparr> r_address = ''aws_instance.b'', r_type = ''aws_instance'', r_name = ''b'',
             r_service = ''ec2'', r_mode = ''resource'', r_provider_alias = None,
             r_depends_on = [], r_count = PNone, r_for_each = PNone, r_attributes = [] \<rparr>,
          \<lparr> r_address = ''aws_instance.a'', r_type = ''aws_instance'', r_name = ''a'',
             r_service = ''ec2'', r_mode = ''resource'', r_provider_alias = None,
             r_depends_on = [], r_count = PNone, r_for_each = PNone, r_attributes = [] \<rparr>],
         [], []) = Some env \<and>
      map fst (e_services env) = [''ec2'', ''iam'', ''rds'', ''s3'', ''vpc'']) \<and>
   assemble False
     ([\<lparr> r_address = ''aws_instance.b'', r_type = ''aws_instance'', r_name = ''b'',
          r_service = ''ec2'', r_mode = ''resource'', r_provider_alias = None,
          r_depends_on = [], r_count = PNone, r_for_each = PNone, r_attributes = [] \<rparr>,
       \<lparr> r_address = ''aws_instance.a'', r_type = ''aws_instance'', r_name = ''a'',
          r_service = ''ec2'', r_mode = ''resource'', r_provider_alias = None,
          r_depends_on = [], r_count = PNone, r_for_each = PNone, r_attributes = [] \<rparr>],
      [], []) =
   Some \<lparr> e_version = ''1.0'', e_provider = ''aws'',
          e_services =
            [(''ec2'',
              \<lparr> resources =
                  [\<lparr> r_address = ''aws_instance.a'', r_type = ''aws_instance'', r_name = ''a'',
                      r_service = ''ec2'', r_mode = ''resource'', r_provider_alias = None,
                      r_depends_on = [], r_count = PNone, r_for_each = PNone, r_attributes = [] \<rparr>,
                   \<lparr> r_address = ''aws_instance.b'', r_type = ''aws_instance'', r_name = ''b'',
                      r_service = ''ec2'', r_mode = ''resource'', r_provider_alias = None,
                      r_depends_on = [], r_count = PNone, r_for_each = PNone, r_attributes = [] \<rparr>],
                 data_sources = [] \<rparr>),
             (''iam'', \<lparr> resources = [], data_sources = [] \<rparr>),
             (''rds'', \<lparr> resources = [], data_sources = [] \<rparr>),
             (''s3'', \<lparr> resources = [], data_sources = [] \<rparr>),
             (''vpc'', \<lparr> resources = [], data_sources = [] \<rparr>)],
          e_ignored = None \<rparr>"
proof -
  have h: "\<forall>r \<in> set [\<lparr> r_address = ''aws_instance.b'', r_type = ''aws_instance'', r_name = ''b'',
                           r_service = ''ec2'', r_mode = ''resource'', r_provider_alias = None,
                           r_depends_on = [], r_count = PNone, r_for_each = PNone, r_attributes = [] \<rparr>,
                       \<lparr> r_address = ''aws_instance.a'', r_type = ''aws_instance'', r_name = ''a'',
                           r_service = ''ec2'', r_mode = ''resource'', r_provider_alias = None,
                           r_depends_on = [], r_count = PNone, r_for_each = PNone, r_attributes = [] \<rparr>] \<union> set [].
             r_service r \<in> set SERVICES_KEYS"
    by (simp add: SERVICES_KEYS_def)
  from envelope_services_fixed_and_sorted[OF h, of False "[]"]
  have e: "\<exists>env.
      assemble False
        ([\<lparr> r_address = ''aws_instance.b'', r_type = ''aws_instance'', r_name = ''b'',
             r_service = ''ec2'', r_mode = ''resource'', r_provider_alias = None,
             r_depends_on = [], r_count = PNone, r_for_each = PNone, r_attributes = [] \<rparr>,
          \<lparr> r_address = ''aws_instance.a'', r_type = ''aws_instance'', r_name = ''a'',
             r_service = ''ec2'', r_mode = ''resource'', r_provider_alias = None,
             r_depends_on = [], r_count = PNone, r_for_each = PNone, r_attributes = [] \<rparr>],
         [], []) = Some env \<and>
      map fst (e_services env) = [''ec2'', ''iam'', ''rds'', ''s3'', ''vpc'']"
    by (elim exE conjE) (intro exI conjI, assumption+)
  have v: "assemble False
     ([\<lparr> r_address = ''aws_instance.b'', r_type = ''aws_instance'', r_name = ''b'',
          r_service = ''ec2'', r_mode = ''resource'', r_provider_alias = None,
          r_depends_on = [], r_count = PNone, r_for_each = PNone, r_attributes = [] \<rparr>,
       \<lparr> r_address = ''aws_instance.a'', r_type = ''aws_instance'', r_name = ''a'',
          r_service = ''ec2'', r_mode = ''resource'', r_provider_alias = None,
          r_depends_on = [], r_count = PNone, r_for_each = PNone, r_attributes = [] \<rparr>],
      [], []) =
   Some \<lparr> e_version = ''1.0'', e_provider = ''aws'',
          e_services =
            [(''ec2'',
              \<lparr> resources =
                  [\<lparr> r_address = ''aws_instance.a'', r_type = ''aws_instance'', r_name = ''a'',
                      r_service = ''ec2'', r_mode = ''resource'', r_provider_alias = None,
                      r_depends_on = [], r_count = PNone, r_for_each = PNone, r_attributes = [] \<rparr>,
                   \<lparr> r_address = ''aws_instance.b'', r_type = ''aws_instance'', r_name = ''b'',
                      r_service = ''ec2'', r_mode = ''resource'', r_provider_alias = None,
                      r_depends_on = [], r_count = PNone, r_for_each = PNone, r_attributes = [] \<rparr>],
                 data_sources = [] \<rparr>),
             (''iam'', \<lparr> resources = [], data_sources = [] \<rparr>),
             (''rds'', \<lparr> resources = [], data_sources = [] \<rparr>),
             (''s3'', \<lparr> resources = [], data_sources = [] \<rparr>),
             (''vpc'', \<lparr> resources = [], data_sources = [] \<rparr>)],
          e_ignored = None \<rparr>"
    by (simp add: assemble_spec[OF h] SERVICES_KEYS_def sort_records_def
                  less_eq_prod_def less_prod_def)
  have k: "r_service
     (\<lparr> r_address = ''aws_instance.b'', r_type = ''aws_instance'', r_name = ''b'',
        r_service = ''ec2'', r_mode = ''resource'', r_provider_alias = None,
        r_depends_on = [], r_count = PNone, r_for_each = PNone, r_attributes = [] \<rparr>) \<in> set SERVICES_KEYS \<and>
   r_service
     (\<lparr> r_address = ''aws_instance.a'', r_type = ''aws_instance'', r_name = ''a'',
        r_service = ''ec2'', r_mode = ''resource'', r_provider_alias = None,
        r_depends_on = [], r_count = PNone, r_for_each = PNone, r_attributes = [] \<rparr>) \<in> set SERVICES_KEYS"
    by (simp add: SERVICES_KEYS_def)
  from k e v show ?thesis by (intro conjI) (elim conjE, assumption)+
qed

section \<open>Properties of the two entry points\<close>

lemma service_for_type_keys: "service_for_type t = Some s \<Longrightarrow> s \<in> set SERVICES_KEYS"
  by (auto simp: service_for_type_def SERVICES_KEYS_def split: if_splits)

lemma make_record_service:
  assumes "make_record kind rtype name body = Inr rec"
  shows "r_service rec \<in> set SERVICES_KEYS"
proof -
  from assms obtain s where "service_for_type rtype = Some s" "r_service rec = s"
    by (cases body)
       (auto simp: make_record_def split: if_splits option.splits prod.splits)
  then show ?thesis using service_for_type_keys by blast
qed

lemma visit_services:
  assumes "\<forall>r \<in> set (fst acc). r_service r \<in> set SERVICES_KEYS"
  shows "\<forall>r \<in> set (fst (visit kind incl t nb acc)). r_service r \<in> set SERVICES_KEYS"
proof (cases "make_record kind t (fst nb) (snd nb)")
  case (Inl reason)
  then show ?thesis using assms by (simp add: visit_def)
next
  case (Inr rec)
  then have "r_service rec \<in> set SERVICES_KEYS" by (rule make_record_service)
  then show ?thesis using assms Inr by (simp add: visit_def)
qed

lemma fold_visit_services:
  assumes "\<forall>r \<in> set (fst acc). r_service r \<in> set SERVICES_KEYS"
  shows "\<forall>r \<in> set (fst (fold (visit kind incl t) nbs acc)). r_service r \<in> set SERVICES_KEYS"
  using assms
proof (induction nbs arbitrary: acc)
  case Nil
  then show ?case by simp
next
  case (Cons nb nbs)
  from Cons.IH[OF visit_services[OF Cons.prems]] show ?case by simp
qed

lemma collect_entry_services:
  assumes "\<forall>r \<in> set (fst acc). r_service r \<in> set SERVICES_KEYS"
  shows "\<forall>r \<in> set (fst (collect_entry kind incl tb acc)). r_service r \<in> set SERVICES_KEYS"
  unfolding collect_entry_def using assms fold_visit_services by simp

lemma collect_section_services:
  assumes "\<forall>r \<in> set (fst acc). r_service r \<in> set SERVICES_KEYS"
  shows "\<forall>r \<in> set (fst (collect_section kind incl section acc)). r_service r \<in> set SERVICES_KEYS"
proof -
  have "\<forall>r \<in> set (fst (fold (collect_entry kind incl) es acc)). r_service r \<in> set SERVICES_KEYS" for es
    using assms
  proof (induction es arbitrary: acc)
    case Nil
    then show ?case by simp
  next
    case (Cons e es)
    from Cons.IH[OF collect_entry_services[OF Cons.prems]] show ?case by simp
  qed
  then show ?thesis by (simp add: collect_section_entries)
qed

lemma collect_from_doc_services:
  assumes "collect_from_doc doc incl = (res, datas, ign)"
  shows "\<forall>r \<in> set res \<union> set datas. r_service r \<in> set SERVICES_KEYS"
proof -
  obtain rs i1 where a: "collect_section ''resource'' incl (dict_get doc ''resource'') ([], []) = (rs, i1)"
    by (cases "collect_section ''resource'' incl (dict_get doc ''resource'') ([], [])")
  obtain ds i2 where b: "collect_section ''data'' incl (dict_get doc ''data'') ([], i1) = (ds, i2)"
    by (cases "collect_section ''data'' incl (dict_get doc ''data'') ([], i1)")
  have "\<forall>r \<in> set rs. r_service r \<in> set SERVICES_KEYS"
    using collect_section_services[of "([], [])" "''resource''" incl "dict_get doc ''resource''"]
    by (simp add: a)
  moreover have "\<forall>r \<in> set ds. r_service r \<in> set SERVICES_KEYS"
    using collect_section_services[of "([], i1)" "''data''" incl "dict_get doc ''data''"]
    by (simp add: b)
  moreover have "res = rs" "datas = ds"
    using assms by (simp_all add: collect_from_doc_def a b)
  ultimately show ?thesis by blast
qed

lemma process_unit_services:
  assumes "\<forall>r \<in> set (fst acc) \<union> set (fst (snd acc)). r_service r \<in> set SERVICES_KEYS"
  shows "\<forall>r \<in> set (fst (process_unit incl path parsed acc)) \<union>
               set (fst (snd (process_unit incl path parsed acc))). r_service r \<in> set SERVICES_KEYS"
proof (cases parsed)
  case (Inl e)
  then show ?thesis using assms by (cases acc) (auto simp: process_unit_def)
next
  case (Inr doc)
  obtain res datas ign where c: "collect_from_doc doc incl = (res, datas, ign)"
    by (cases "collect_from_doc doc incl") auto
  from collect_from_doc_services[OF c] assms Inr c show ?thesis
    by (cases acc) (auto simp: process_unit_def)
qed

lemma fold_process_services:
  assumes "\<forall>r \<in> set (fst acc) \<union> set (fst (snd acc)). r_service r \<in> set SERVICES_KEYS"
  shows "\<forall>r \<in> set (fst (fold (\<lambda>u. process_unit incl (p u) (q u)) us acc)) \<union>
               set (fst (snd (fold (\<lambda>u. process_unit incl (p u) (q u)) us acc))).
           r_service r \<in> set SERVICES_KEYS"
  using assms
proof (induction us arbitrary: acc)
  case Nil
  then show ?case by simp
next
  case (Cons u us)
  from Cons.IH[OF process_unit_services[OF Cons.prems]] show ?case by simp
qed

lemma assemble_total:
  assumes "\<forall>r \<in> set (fst acc) \<union> set (fst (snd acc)). r_service r \<in> set SERVICES_KEYS"
  shows "\<exists>env. assemble incl acc = Some env"
proof -
  obtain rs ds ig where acc: "acc = (rs, ds, ig)" by (cases acc) auto
  with assms have "\<forall>r \<in> set rs \<union> set ds. r_service r \<in> set SERVICES_KEYS" by simp
  from assemble_spec[OF this] show ?thesis by (simp add: acc)
qed

lemma transform_from_prompt_returns:
  "\<exists>env. transform_from_prompt parse_tf_string request_obj = Some env"
proof -
  have "\<forall>r \<in> set (fst ([], [], [])) \<union> set (fst (snd ([], [], []))).
          r_service (r :: norm_record) \<in> set SERVICES_KEYS"
    by simp
  from assemble_total[OF fold_process_services[OF this,
      of "q_include_ignored request_obj"
         "\<lambda>f. case f_path f of None \<Rightarrow> ''<memory>''
              | Some p \<Rightarrow> if p = [] then ''<memory>'' else p"
         "\<lambda>f. parse_tf_string (f_content f)" "q_files request_obj"],
      of "q_include_ignored request_obj"]
  show ?thesis unfolding transform_from_prompt_def Let_def .
qed

lemma transform_from_path_returns:
  "\<exists>env. transform_from_path fs input_path include_ignored = Some env"
proof -
  have "\<forall>r \<in> set (fst ([], [], [])) \<union> set (fst (snd ([], [], []))).
          r_service (r :: norm_record) \<in> set SERVICES_KEYS"
    by simp
  from assemble_total[OF fold_process_services[OF this,
      of include_ignored "\<lambda>p. p" "parse_tf_file fs" "gather_tf_files fs input_path"],
      of include_ignored]
  show ?thesis unfolding transform_from_path_def Let_def .
qed

lemma sort_mset_eq:
  fixes xs ys :: "'a::linorder list"
  assumes "mset xs = mset ys"
  shows "sort xs = sort ys"
proof -
  have "mset (sort ys) = mset xs" using assms by simp
  moreover have "sorted (sort ys)" by simp
  ultimately show ?thesis by (rule properties_for_sort)
qed

lemma gather_tf_files_walk_order:
  assumes "mset (walk input_path) = mset (fs_walk fs input_path)"
  shows "gather_tf_files (fs\<lparr>fs_walk := walk\<rparr>) input_path = gather_tf_files fs input_path"
proof -
  have "mset (map (\<lambda>rf. fs_join fs (fst rf) (snd rf))
               (filter (\<lambda>rf. suffix ''.tf'' (snd rf)) (walk input_path))) =
        mset (map (\<lambda>rf. fs_join fs (fst rf) (snd rf))
               (filter (\<lambda>rf. suffix ''.tf'' (snd rf)) (fs_walk fs input_path)))"
    by (simp only: mset_map mset_filter assms)
  then have "sort (map (\<lambda>rf. fs_join fs (fst rf) (snd rf))
               (filter (\<lambda>rf. suffix ''.tf'' (snd rf)) (walk input_path))) =
        sort (map (\<lambda>rf. fs_join fs (fst rf) (snd rf))
               (filter (\<lambda>rf. suffix ''.tf'' (snd rf)) (fs_walk fs input_path)))"
    by (rule sort_mset_eq)
  then show ?thesis by (simp add: gather_tf_files_def)
qed

lemma transform_from_path_walk_order:
  assumes "mset (walk input_path) = mset (fs_walk fs input_path)"
  shows "transform_from_path (fs\<lparr>fs_walk := walk\<rparr>) input_path incl =
         transform_from_path fs input_path incl"
  by (simp add: transform_from_path_def gather_tf_files_walk_order[of walk input_path fs, OF assms])

lemma collect_one_instance:
  "collect_from_doc
     [(''resource'', PList [PDict [(''aws_instance'', PDict [(''web'', PDict [(''ami'', PStr a)])])]])]
     incl =
   ([\<lparr> r_address = ''aws_instance.web'', r_type = ''aws_instance'', r_name = ''web'',
        r_service = ''ec2'', r_mode = ''resource'', r_provider_alias = None,
        r_depends_on = [], r_count = PNone, r_for_each = PNone,
        r_attributes = [(''ami'', normalize_value (PStr a))] \<rparr>], [], [])"
  by (simp add: collect_from_doc_def collect_section_entries collect_entry_def visit_def
        iter_resource_entries_def iter_name_bodies_def dict_get_def
        make_record_def extract_meta_def dict_pop_def ordered_dict_def dict_set_def
        classify_defs
      del: normalize_value.simps)

lemma normalize_plain_ami:
  "normalize_value (PStr ''ami-1'') = PStr ''ami-1''"
  "normalize_value (PStr ''ami-2'') = PStr ''ami-2''"
  by (simp_all add: re_match_def EXPR_RE_def isspace_def)

text \<open>
  C1 says that the envelope does not depend on the order in which the units are supplied.
  \<^verbatim>\<open>sort_records\<close> is a stable sort on type, name and address, and the address is the type
  and the name again, so two records with the same type and name keep the order in which
  their files were given. Two files that both declare \<^verbatim>\<open>aws_instance.web\<close>, with the
  parser returning for the content \<^verbatim>\<open>A\<close> the declaration with \<^verbatim>\<open>ami = "ami-1"\<close> and for
  any other content the one with \<^verbatim>\<open>ami = "ami-2"\<close>, give two envelopes that differ in the
  order of the two records.
\<close>

theorem transform_from_prompt_depends_on_file_order:
  "transform_from_prompt
     (\<lambda>content. Inr [(''resource'', PList [PDict [(''aws_instance'',
        PDict [(''web'', PDict [(''ami'', PStr (if content = ''A'' then ''ami-1'' else ''ami-2''))])])]])])
     \<lparr> q_files = [\<lparr> f_path = Some ''a.tf'', f_content = ''A'' \<rparr>,
                   \<lparr> f_path = Some ''b.tf'', f_content = ''B'' \<rparr>],
        q_include_ignored = False \<rparr> =
   Some \<lparr> e_version = ''1.0'', e_provider = ''aws'',
          e_services =
            [(''ec2'',
              \<lparr> resources =
                  [\<lparr> r_address = ''aws_instance.web'', r_type = ''aws_instance'', r_name = ''web'',
                      r_service = ''ec2'', r_mode = ''resource'', r_provider_alias = None,
                      r_depends_on = [], r_count = PNone, r_for_each = PNone,
                      r_attributes = [(''ami'', PStr ''ami-1'')] \<rparr>,
                   \<lparr> r_address = ''aws_instance.web'', r_type = ''aws_instance'', r_name = ''web'',
                      r_service = ''ec2'', r_mode = ''resource'', r_provider_alias = None,
                      r_depends_on = [], r_count = PNone, r_for_each = PNone,
                      r_attributes = [(''ami'', PStr ''ami-2'')] \<rparr>],
                 data_sources = [] \<rparr>),
             (''iam'', \<lparr> resources = [], data_sources = [] \<rparr>),
             (''rds'', \<lparr> resources = [], data_sources = [] \<rparr>),
             (''s3'', \<lparr> resources = [], data_sources = [] \<rparr>),
             (''vpc'', \<lparr> resources = [], data_sources = [] \<rparr>)],
          e_ignored = None \<rparr> \<and>
   transform_from_prompt
     (\<lambda>content. Inr [(''resource'', PList [PDict [(''aws_instance'',
        PDict [(''web'', PDict [(''ami'', PStr (if content = ''A'' then ''ami-1'' else ''ami-2''))])])]])])
     \<lparr> q_files = [\<lparr> f_path = Some ''b.tf'', f_content = ''B'' \<rparr>,
                   \<lparr> f_path = Some ''a.tf'', f_content = ''A'' \<rparr>],
        q_include_ignored = False \<rparr> =
   Some \<lparr> e_version = ''1.0'', e_provider = ''aws'',
          e_services =
            [(''ec2'',
              \<lparr> resources =
                  [\<lparr> r_address = ''aws_instance.web'', r_type = ''aws_instance'', r_name = ''web'',
                      r_service = ''ec2'', r_mode = ''resource'', r_provider_alias = None,
                      r_depends_on = [], r_count = PNone, r_for_each = PNone,
                      r_attributes = [(''ami'', PStr ''ami-2'')] \<rparr>,
                   \<lparr> r_address = ''aws_instance.web'', r_type = ''aws_instance'', r_name = ''web'',
                      r_service = ''ec2'', r_mode = ''resource'', r_provider_alias = None,
                      r_depends_on = [], r_count = PNone, r_for_each = PNone,
                      r_attributes = [(''ami'', PStr ''ami-1'')] \<rparr>],
                 data_sources = [] \<rparr>),
             (''iam'', \<lparr> resources = [], data_sources = [] \<rparr>),
             (''rds'', \<lparr> resources = [], data_sources = [] \<rparr>),
             (''s3'', \<lparr> resources = [], data_sources = [] \<rparr>),
             (''vpc'', \<lparr> resources = [], data_sources = [] \<rparr>)],
          e_ignored = None \<rparr>"
  by (simp add: transform_from_prompt_def process_unit_def collect_one_instance
        normalize_plain_ami assemble_def organize_by_service_def SERVICES_KEYS_def
        sort_records_def less_eq_prod_def less_prod_def
      del: normalize_value.simps)

end
